theory Spec2Isabelle
  imports Main "HOL-Library.Word"
begin

section \<open>The storage medium\<close>

text \<open>
  The library is modelled in its simulation build (\<open>F_CPU\<close> undefined, \<open>int\<close> wider than
  16 bits): the medium is the array \<open>uint8_t eeprom[EEPROM_SIMULATED_SIZE]\<close>, and
  \<open>EEPROM_Read\<close> / \<open>EEPROM_Write\<close> are plain array accesses. A \<open>uint16_t\<close> variable is a
  \<open>16 word\<close>, a \<open>uint8_t\<close> an \<open>8 word\<close>; an expression the C code evaluates in \<open>int\<close>
  before it indexes the array is a \<open>nat\<close> that is not truncated. An access outside the
  array is undefined behaviour in C and the error \<open>OutOfBounds\<close> here.

  Every access is appended to a trace, in program order, so that statements about which
  cells an operation reads or writes, and in which order, are statements about the model.
\<close>

type_synonym byte = "8 word"
type_synonym addr = "16 word"

datatype access = Rd nat | Wr nat byte

record medium =
  eeprom :: "byte list"
  trace :: "access list"

datatype error = OutOfBounds

text \<open>The build configuration of the repository (its makefile fragment).\<close>

definition EEPROM_WEAR_LEVEL_FACTOR :: nat where
  "EEPROM_WEAR_LEVEL_FACTOR = 8"

definition EEPROM_SIMULATED_SIZE :: nat where
  "EEPROM_SIMULATED_SIZE = 512"

text \<open>\<open>uint8_t eeprom[SIZE] = { [0 ... SIZE - 1] = 0xFF }\<close>, before any access.\<close>

definition eeprom_initial :: "nat \<Rightarrow> medium" where
  "eeprom_initial n = \<lparr>eeprom = replicate n 0xFF, trace = []\<rparr>"

definition EEPROM_Read :: "nat \<Rightarrow> medium \<Rightarrow> error + (byte \<times> medium)" where
  "EEPROM_Read address s =
     (if address < length (eeprom s)
      then Inr (eeprom s ! address, s\<lparr>trace := trace s @ [Rd address]\<rparr>)
      else Inl OutOfBounds)"

definition EEPROM_Write :: "nat \<Rightarrow> byte \<Rightarrow> medium \<Rightarrow> error + medium" where
  "EEPROM_Write address data s =
     (if address < length (eeprom s)
      then Inr (s\<lparr>eeprom := (eeprom s)[address := data],
                  trace := trace s @ [Wr address data]\<rparr>)
      else Inl OutOfBounds)"

section \<open>Facts about 16-bit arithmetic used by the termination proofs\<close>

lemma unat_pred_less: "(x::16 word) \<noteq> 0 \<Longrightarrow> unat (x - 1) < unat x"
  by (simp add: unat_minus_one unat_gt_0)

lemma unat_succ_less:
  "(i::16 word) < len \<Longrightarrow> unat (i + 1) = unat i + 1 \<and> unat i < unat len"
proof -
  assume a: "i < len"
  then have l: "unat i < unat len" by (simp add: word_less_nat_alt)
  have "unat len < 2 ^ 16" using unsigned_less [of len, where 'a=nat] by simp
  with l have "unat i + unat (1::16 word) < 2 ^ LENGTH(16)" by simp
  then have "unat (i + 1) = unat i + unat (1::16 word)" by (simp only: unat_add_lem)
  with l show ?thesis by simp
qed

section \<open>The active-slot resolver\<close>

text \<open>
  The \<open>do ... while\<close> loop of \<open>EEPROM_FindCurrentAddress\<close>. One call of \<open>find_loop\<close> is one
  iteration: it reads \<open>tmp\<close> at \<open>EeBufPtr\<close>, increments the pointer (a \<open>uint16_t\<close>, so the
  increment wraps), leaves the loop when the pointer has reached \<open>EeBufEnd\<close>, and otherwise
  evaluates the loop condition, which reads the cell at the incremented pointer. The result
  is the pointer on leaving the loop.
\<close>

function find_loop :: "addr \<Rightarrow> addr \<Rightarrow> medium \<Rightarrow> error + (addr \<times> medium)" where
  "find_loop EeBufEnd EeBufPtr s =
     (case EEPROM_Read (unat EeBufPtr) s of
        Inl e \<Rightarrow> Inl e
      | Inr (tmp, s1) \<Rightarrow>
          if EeBufPtr + 1 = EeBufEnd then Inr (EeBufPtr + 1, s1)
          else (case EEPROM_Read (unat (EeBufPtr + 1)) s1 of
                  Inl e \<Rightarrow> Inl e
                | Inr (nxt, s2) \<Rightarrow>
                    if nxt = tmp + 1 then find_loop EeBufEnd (EeBufPtr + 1) s2
                    else Inr (EeBufPtr + 1, s2)))"
  by pat_completeness auto
termination
proof (relation "measure (\<lambda>(e, p, s). unat (e - p - 1))")
  show "wf (measure (\<lambda>(e, p, s). unat (e - p - 1)))" by simp
next
  fix EeBufEnd EeBufPtr :: addr and s :: medium and x2 x y x2a xa ya
  assume "EeBufPtr + 1 \<noteq> EeBufEnd"
  then have nz: "EeBufEnd - EeBufPtr - 1 \<noteq> 0" by (simp add: algebra_simps)
  have eq: "EeBufEnd - (EeBufPtr + 1) - 1 = (EeBufEnd - EeBufPtr - 1) - 1" by simp
  have "unat (EeBufEnd - (EeBufPtr + 1) - 1) < unat (EeBufEnd - EeBufPtr - 1)"
    unfolding eq using nz by (rule unat_pred_less)
  then show "((EeBufEnd, EeBufPtr + 1, ya), EeBufEnd, EeBufPtr, s)
       \<in> measure (\<lambda>(e, p, s). unat (e - p - 1))" by simp
qed

declare find_loop.simps [simp del]

text \<open>
  \<open>N\<close> is \<open>EE_PARAM_BUFFER_SIZE = EE_STATUS_BUFFER_SIZE = EEPROM_WEAR_LEVEL_FACTOR\<close>, a
  build-time constant. \<open>EeBufPtr\<close> and \<open>EeBufEnd\<close> are \<open>uint16_t\<close>: both sums are truncated
  to 16 bits, and so is the result.
\<close>

definition EEPROM_FindCurrentAddress :: "nat \<Rightarrow> addr \<Rightarrow> medium \<Rightarrow> error + (addr \<times> medium)" where
  "EEPROM_FindCurrentAddress N param s =
     (let EeBufPtr = param + of_nat N;
          EeBufEnd = EeBufPtr + of_nat N
      in case find_loop EeBufEnd EeBufPtr s of
           Inl e \<Rightarrow> Inl e
         | Inr (p, s') \<Rightarrow> Inr (p - of_nat (N + 1), s'))"

section \<open>The byte engine\<close>

text \<open>
  The loop \<open>for (uint8_t i = 1; i < EE_STATUS_BUFFER_SIZE; ++i)\<close> of
  \<open>EEPROM_InitWearLeveledByte\<close>. The counter is a \<open>uint8_t\<close> compared with an \<open>int\<close>, so for
  \<open>N > 255\<close> the condition never fails and the loop does not return: it is a partial
  function, and \<open>None\<close> is "no result". The index \<open>i + param + N\<close> is an \<open>int\<close>; the value
  \<open>i - 1\<close> is stored into a \<open>uint8_t\<close> cell.
\<close>

partial_function (option) init_loop ::
  "nat \<Rightarrow> addr \<Rightarrow> byte \<Rightarrow> medium \<Rightarrow> (error + medium) option" where
  "init_loop N param i s =
     (if unat i < N
      then (case EEPROM_Write (unat i + unat param + N) (i - 1) s of
              Inl e \<Rightarrow> Some (Inl e)
            | Inr s' \<Rightarrow> init_loop N param (i + 1) s')
      else Some (Inr s))"

declare init_loop.simps [code]

definition EEPROM_InitWearLeveledByte ::
  "nat \<Rightarrow> addr \<Rightarrow> byte \<Rightarrow> medium \<Rightarrow> (error + (byte \<times> medium)) option" where
  "EEPROM_InitWearLeveledByte N param data s =
     (case EEPROM_Write (unat param + N) (of_nat N - 1) s of
        Inl e \<Rightarrow> Some (Inl e)
      | Inr s1 \<Rightarrow>
          (case init_loop N param 1 s1 of
             None \<Rightarrow> None
           | Some (Inl e) \<Rightarrow> Some (Inl e)
           | Some (Inr s2) \<Rightarrow>
               (case EEPROM_Write (unat param) data s2 of
                  Inl e \<Rightarrow> Some (Inl e)
                | Inr s3 \<Rightarrow> Some (Inr (data, s3)))))"

definition EEPROM_ReadWearLeveledByte :: "nat \<Rightarrow> addr \<Rightarrow> medium \<Rightarrow> error + (byte \<times> medium)" where
  "EEPROM_ReadWearLeveledByte N param s =
     (case EEPROM_FindCurrentAddress N param s of
        Inl e \<Rightarrow> Inl e
      | Inr (address, s1) \<Rightarrow> EEPROM_Read (unat address) s1)"

text \<open>
  In \<open>++address == param + EE_PARAM_BUFFER_SIZE\<close> the left side is the incremented
  \<open>uint16_t\<close> and the right side an \<open>int\<close> sum, compared as integers. The counter
  \<open>oldStatusValue + 1\<close> is stored into a \<open>uint8_t\<close> cell, so it wraps from 255 to 0.
\<close>

definition EEPROM_WriteWearLeveledByte :: "nat \<Rightarrow> addr \<Rightarrow> byte \<Rightarrow> medium \<Rightarrow> error + medium" where
  "EEPROM_WriteWearLeveledByte N param data s =
     (case EEPROM_FindCurrentAddress N param s of
        Inl e \<Rightarrow> Inl e
      | Inr (address, s1) \<Rightarrow>
          (case EEPROM_Read (unat address) s1 of
             Inl e \<Rightarrow> Inl e
           | Inr (cur, s2) \<Rightarrow>
               if cur = data then Inr s2
               else (case EEPROM_Read (unat address + N) s2 of
                       Inl e \<Rightarrow> Inl e
                     | Inr (oldStatusValue, s3) \<Rightarrow>
                         let address' = (if unat (address + 1) = unat param + N
                                         then param else address + 1)
                         in (case EEPROM_Write (unat address') data s3 of
                               Inl e \<Rightarrow> Inl e
                             | Inr s4 \<Rightarrow>
                                 EEPROM_Write (unat address' + N) (oldStatusValue + 1) s4))))"

section \<open>The block engine\<close>

text \<open>
  The three loops \<open>for (uint16_t i = 0; i < len; ++i)\<close>. The caller's buffer is a list of
  bytes; an access beyond its end is \<open>OutOfBounds\<close>. The offset
  \<open>param + i * (EE_PARAM_BUFFER_SIZE + EE_STATUS_BUFFER_SIZE)\<close> is passed as a \<open>uint16_t\<close>.
\<close>

function init_block_loop ::
  "nat \<Rightarrow> addr \<Rightarrow> byte list \<Rightarrow> addr \<Rightarrow> addr \<Rightarrow> medium \<Rightarrow> (error + medium) option" where
  "init_block_loop N param data len i s =
     (if i < len
      then (if unat i < length data
            then (case EEPROM_InitWearLeveledByte N (param + i * of_nat (N + N)) (data ! unat i) s of
                    None \<Rightarrow> None
                  | Some (Inl e) \<Rightarrow> Some (Inl e)
                  | Some (Inr (r, s')) \<Rightarrow> init_block_loop N param data len (i + 1) s')
            else Some (Inl OutOfBounds))
      else Some (Inr s))"
  by pat_completeness auto
termination
proof (relation "measure (\<lambda>(N, param, data, len, i, s). unat len - unat i)")
  show "wf (measure (\<lambda>(N, param, data, len, i, s). unat len - unat i))" by simp
next
  fix N :: nat and param len i :: addr and data :: "byte list" and s :: medium
    and x2 x2a x y ya
  assume "i < len"
  then have "unat (i + 1) = unat i + 1" and "unat i < unat len"
    by (simp_all only: unat_succ_less)
  then show "((N, param, data, len, i + 1, ya), N, param, data, len, i, s)
       \<in> measure (\<lambda>(N, param, data, len, i, s). unat len - unat i)" by simp
qed

declare init_block_loop.simps [simp del]

definition EEPROM_InitWearLeveledBlock ::
  "nat \<Rightarrow> addr \<Rightarrow> byte list \<Rightarrow> addr \<Rightarrow> medium \<Rightarrow> (error + medium) option" where
  "EEPROM_InitWearLeveledBlock N param data len s = init_block_loop N param data len 0 s"

function read_block_loop ::
  "nat \<Rightarrow> addr \<Rightarrow> addr \<Rightarrow> addr \<Rightarrow> byte list \<Rightarrow> medium \<Rightarrow> error + (byte list \<times> medium)" where
  "read_block_loop N param len i buf s =
     (if i < len
      then (case EEPROM_ReadWearLeveledByte N (param + i * of_nat (N + N)) s of
              Inl e \<Rightarrow> Inl e
            | Inr (b, s') \<Rightarrow>
                if unat i < length buf
                then read_block_loop N param len (i + 1) (buf[unat i := b]) s'
                else Inl OutOfBounds)
      else Inr (buf, s))"
  by pat_completeness auto
termination
proof (relation "measure (\<lambda>(N, param, len, i, buf, s). unat len - unat i)")
  show "wf (measure (\<lambda>(N, param, len, i, buf, s). unat len - unat i))" by simp
next
  fix N :: nat and param len i :: addr and buf :: "byte list" and s :: medium
    and x2 x y
  assume "i < len"
  then have "unat (i + 1) = unat i + 1" and "unat i < unat len"
    by (simp_all only: unat_succ_less)
  then show "((N, param, len, i + 1, buf[unat i := x], y), N, param, len, i, buf, s)
       \<in> measure (\<lambda>(N, param, len, i, buf, s). unat len - unat i)" by simp
qed

declare read_block_loop.simps [simp del]

text \<open>\<open>buf\<close> is the caller's buffer on entry; the result is the buffer on return.\<close>

definition EEPROM_ReadWearLeveledBlock ::
  "nat \<Rightarrow> addr \<Rightarrow> byte list \<Rightarrow> addr \<Rightarrow> medium \<Rightarrow> error + (byte list \<times> medium)" where
  "EEPROM_ReadWearLeveledBlock N param buf len s = read_block_loop N param len 0 buf s"

function write_block_loop ::
  "nat \<Rightarrow> addr \<Rightarrow> byte list \<Rightarrow> addr \<Rightarrow> addr \<Rightarrow> medium \<Rightarrow> error + medium" where
  "write_block_loop N param data len i s =
     (if i < len
      then (if unat i < length data
            then (case EEPROM_WriteWearLeveledByte N (param + i * of_nat (N + N)) (data ! unat i) s of
                    Inl e \<Rightarrow> Inl e
                  | Inr s' \<Rightarrow> write_block_loop N param data len (i + 1) s')
            else Inl OutOfBounds)
      else Inr s)"
  by pat_completeness auto
termination
proof (relation "measure (\<lambda>(N, param, data, len, i, s). unat len - unat i)")
  show "wf (measure (\<lambda>(N, param, data, len, i, s). unat len - unat i))" by simp
next
  fix N :: nat and param len i :: addr and data :: "byte list" and s :: medium and x2
  assume "i < len"
  then have "unat (i + 1) = unat i + 1" and "unat i < unat len"
    by (simp_all only: unat_succ_less)
  then show "((N, param, data, len, i + 1, x2), N, param, data, len, i, s)
       \<in> measure (\<lambda>(N, param, data, len, i, s). unat len - unat i)" by simp
qed

declare write_block_loop.simps [simp del]

definition EEPROM_WriteWearLeveledBlock ::
  "nat \<Rightarrow> addr \<Rightarrow> byte list \<Rightarrow> addr \<Rightarrow> medium \<Rightarrow> error + medium" where
  "EEPROM_WriteWearLeveledBlock N param data len s = write_block_loop N param data len 0 s"

section \<open>Slot-groups\<close>

text \<open>
  The slot-group of a logical byte at offset \<open>param\<close>: its \<open>N\<close> data cells are
  \<open>dat param s 0 .. dat param s (N - 1)\<close> and its \<open>N\<close> generation counters
  \<open>gen N param s 0 .. gen N param s (N - 1)\<close>. The group fits when all \<open>2 * N\<close> cells lie
  inside the array and inside the range a \<open>uint16_t\<close> offset can address.
\<close>

definition gen :: "nat \<Rightarrow> addr \<Rightarrow> medium \<Rightarrow> nat \<Rightarrow> byte" where
  "gen N param s j = eeprom s ! (unat param + N + j)"

definition dat :: "addr \<Rightarrow> medium \<Rightarrow> nat \<Rightarrow> byte" where
  "dat param s j = eeprom s ! (unat param + j)"

definition fits :: "nat \<Rightarrow> addr \<Rightarrow> medium \<Rightarrow> bool" where
  "fits N param s \<longleftrightarrow> unat param + 2 * N \<le> length (eeprom s) \<and> unat param + 2 * N \<le> 65536"

text \<open>
  The scan rule of the resolver on the counters alone: from index \<open>j\<close>, advance while the
  next counter is the current one plus one (modulo 256). \<open>scan_reads\<close> lists the reads the
  loop of \<open>EEPROM_FindCurrentAddress\<close> performs on the way; \<open>b\<close> is the address of counter 0.
\<close>

function scan :: "(nat \<Rightarrow> byte) \<Rightarrow> nat \<Rightarrow> nat \<Rightarrow> nat" where
  "scan g N j = (if Suc j < N \<and> g (Suc j) = g j + 1 then scan g N (Suc j) else j)"
  by pat_completeness auto
termination
  by (relation "measure (\<lambda>(g, N, j). N - j)") auto

declare scan.simps [simp del]

function scan_reads :: "(nat \<Rightarrow> byte) \<Rightarrow> nat \<Rightarrow> nat \<Rightarrow> nat \<Rightarrow> access list" where
  "scan_reads g b N j =
     Rd (b + j) #
     (if Suc j < N
      then Rd (b + Suc j) # (if g (Suc j) = g j + 1 then scan_reads g b N (Suc j) else [])
      else [])"
  by pat_completeness auto
termination
  by (relation "measure (\<lambda>(g, b, N, j). N - j)") auto

declare scan_reads.simps [simp del]

definition active :: "nat \<Rightarrow> addr \<Rightarrow> medium \<Rightarrow> nat" where
  "active N param s = scan (gen N param s) N 0"

definition resolver_reads :: "nat \<Rightarrow> addr \<Rightarrow> medium \<Rightarrow> access list" where
  "resolver_reads N param s = scan_reads (gen N param s) (unat param + N) N 0"

definition next_slot :: "nat \<Rightarrow> nat \<Rightarrow> nat" where
  "next_slot N k = (if Suc k = N then 0 else Suc k)"

text \<open>
  The cells and the accesses of \<open>EEPROM_InitWearLeveledByte\<close> on a group at address \<open>p\<close>,
  written out.
\<close>

definition init_cells :: "nat \<Rightarrow> nat \<Rightarrow> byte \<Rightarrow> byte list \<Rightarrow> byte list" where
  "init_cells N p v cs =
     map (\<lambda>a. if a = p then v
              else if a = p + N then of_nat N - 1
              else if p + N < a \<and> a < p + 2 * N then of_nat (a - p - N) - 1
              else cs ! a) [0..<length cs]"

definition init_writes :: "nat \<Rightarrow> nat \<Rightarrow> byte \<Rightarrow> access list" where
  "init_writes N p v =
     Wr (p + N) (of_nat N - 1) # map (\<lambda>j. Wr (j + p + N) (of_nat j - 1)) [1..<N] @ [Wr p v]"

text \<open>
  The invariant of the data model, on the counters \<open>g 0 .. g (N - 1)\<close> of one group:
  \<open>k\<close> is a boundary index (the counter after it is not its successor modulo 256, or
  \<open>k\<close> is the last index), and it is the only one: every other adjacent pair of counters
  is ascending by one. In particular the counters from index 0 to \<open>k\<close> are consecutively
  ascending.
\<close>

definition single_run :: "nat \<Rightarrow> (nat \<Rightarrow> byte) \<Rightarrow> nat \<Rightarrow> bool" where
  "single_run N g k \<longleftrightarrow>
     k < N \<and> (\<forall>j. Suc j < N \<and> j \<noteq> k \<longrightarrow> g (Suc j) = g j + 1)
           \<and> (k = N - 1 \<or> g (Suc k) \<noteq> g k + 1)"

text \<open>
  The most recent write into the data cells \<open>[p, p + N)\<close> recorded in a trace; a sequence of
  \<open>EEPROM_WriteWearLeveledByte\<close> calls on one group; and an initialized group: it fits the
  medium, its counters form a single ascending run with boundary \<open>k\<close>, and data cell \<open>k\<close>
  holds \<open>v\<close>.
\<close>

fun last_data_write :: "nat \<Rightarrow> nat \<Rightarrow> access list \<Rightarrow> nat option" where
  "last_data_write p N [] = None"
| "last_data_write p N (x # xs) =
     (case last_data_write p N xs of
        Some a \<Rightarrow> Some a
      | None \<Rightarrow> (case x of Rd a \<Rightarrow> None
                         | Wr a v \<Rightarrow> if p \<le> a \<and> a < p + N then Some a else None))"

fun write_seq :: "nat \<Rightarrow> addr \<Rightarrow> byte list \<Rightarrow> medium \<Rightarrow> error + medium" where
  "write_seq N param [] s = Inr s"
| "write_seq N param (v # vs) s =
     (case EEPROM_WriteWearLeveledByte N param v s of
        Inl e \<Rightarrow> Inl e
      | Inr s' \<Rightarrow> write_seq N param vs s')"

definition initialized :: "nat \<Rightarrow> addr \<Rightarrow> medium \<Rightarrow> nat \<Rightarrow> byte \<Rightarrow> bool" where
  "initialized N param s k v \<longleftrightarrow>
     fits N param s \<and> single_run N (gen N param s) k \<and> dat param s k = v"

text \<open>
  Blocks. \<open>stored\<close> is the byte a group resolves to; \<open>group N param j\<close> is the offset of the
  group of byte \<open>j\<close> of a block at \<open>param\<close>, \<open>in_group N param j a\<close> says that cell \<open>a\<close>
  is one of its \<open>2N\<close> cells, and a block of \<open>len\<close> bytes fits when all its groups lie inside
  the medium and inside the range of a \<open>uint16_t\<close> offset.
\<close>

definition stored :: "nat \<Rightarrow> addr \<Rightarrow> medium \<Rightarrow> byte" where
  "stored N param s = dat param s (active N param s)"

definition in_group :: "nat \<Rightarrow> addr \<Rightarrow> nat \<Rightarrow> nat \<Rightarrow> bool" where
  "in_group N param i a \<longleftrightarrow>
     unat param + i * (2 * N) \<le> a \<and> a < unat param + (i + 1) * (2 * N)"

definition block_fits :: "nat \<Rightarrow> addr \<Rightarrow> addr \<Rightarrow> medium \<Rightarrow> bool" where
  "block_fits N param len s \<longleftrightarrow>
     unat param + unat len * (2 * N) \<le> length (eeprom s) \<and>
     unat param + unat len * (2 * N) \<le> 65536"

definition group :: "nat \<Rightarrow> addr \<Rightarrow> nat \<Rightarrow> addr" where
  "group N param j = param + of_nat (j * (2 * N))"

section \<open>Arithmetic on offsets\<close>

lemma unat_of_nat_addr: "n < 65536 \<Longrightarrow> unat (of_nat n :: addr) = n"
  by (simp add: unat_of_nat)

lemma unat_addr_offset:
  "unat (p::addr) + n < 65536 \<Longrightarrow> unat (p + of_nat n) = unat p + n"
proof -
  assume a: "unat p + n < 65536"
  then have n: "unat (of_nat n :: addr) = n" by (simp add: unat_of_nat_addr)
  with a have "unat p + unat (of_nat n :: addr) < 2 ^ LENGTH(16)" by simp
  then have "unat (p + of_nat n) = unat p + unat (of_nat n :: addr)" by (simp only: unat_add_lem)
  with n show ?thesis by simp
qed

lemma of_nat_addr_eq_0: "n < 65536 \<Longrightarrow> ((of_nat n :: addr) = 0) = (n = 0)"
proof
  assume n: "n < 65536" and z: "(of_nat n :: addr) = 0"
  from unat_of_nat_addr[OF n] z show "n = 0" by simp
qed simp

lemma addr_offset_inj:
  "m \<le> n \<Longrightarrow> n < m + 65536 \<Longrightarrow> ((p::addr) + of_nat m = p + of_nat n) = (m = n)"
proof -
  assume mn: "m \<le> n" and d: "n < m + 65536"
  have "(of_nat n :: addr) = of_nat m + of_nat (n - m)" using mn by (simp flip: of_nat_add)
  then have "((of_nat m :: addr) = of_nat n) = ((of_nat (n - m) :: addr) = 0)" by simp
  also have "\<dots> = (n - m = 0)"
    using d mn by (intro of_nat_addr_eq_0) linarith
  finally show ?thesis using mn by auto
qed

section \<open>What the resolver computes\<close>

lemma find_loop_scan:
  assumes len: "unat param + 2 * N \<le> length (eeprom s)"
    and top: "unat param + 2 * N \<le> 65536"
    and j: "j < N"
    and g: "\<forall>i<N. eeprom s ! (unat param + N + i) = g i"
  shows "find_loop (param + of_nat (N + N)) (param + of_nat (N + j)) s =
           Inr (param + of_nat (N + Suc (scan g N j)),
                s\<lparr>trace := trace s @ scan_reads g (unat param + N) N j\<rparr>)"
  using len top j g
proof (induction g N j arbitrary: s rule: scan.induct)
  case (1 g N j)
  note len = "1.prems"(1) and top = "1.prems"(2) and jN = "1.prems"(3) and g = "1.prems"(4)
  define E where "E = param + of_nat (N + N)"
  define P where "P = param + of_nat (N + j)"
  define P' where "P' = param + of_nat (N + Suc j)"
  define b where "b = unat param + N"
  have "unat param + (N + j) < 65536" using top jN by linarith
  from unat_addr_offset[OF this]
  have u0: "unat P = b + j" unfolding P_def b_def by (simp only: add.assoc)
  have inc: "P + 1 = P'" unfolding P_def P'_def by simp
  have "N + Suc j \<le> N + N" "N + N < N + Suc j + 65536" using top jN by linarith+
  from addr_offset_inj[OF this, of param]
  have fin: "(P' = E) = (Suc j = N)" unfolding P'_def E_def by (simp only: add_left_cancel)
  have inb: "b + j < length (eeprom s)" using len jN unfolding b_def by linarith
  have gj: "eeprom s ! (b + j) = g j" using g[rule_format, OF jN] unfolding b_def .
  have step: "find_loop E P s =
     (if P' = E then Inr (P', s\<lparr>trace := trace s @ [Rd (b + j)]\<rparr>)
      else (case EEPROM_Read (unat P') (s\<lparr>trace := trace s @ [Rd (b + j)]\<rparr>) of
              Inl e \<Rightarrow> Inl e
            | Inr (nxt, s2) \<Rightarrow>
                if nxt = g j + 1 then find_loop E P' s2 else Inr (P', s2)))"
    by (subst find_loop.simps) (simp add: EEPROM_Read_def u0 inc inb gj)
  show ?case
  proof (cases "Suc j < N")
    case False
    then have e: "Suc j = N" using jN by simp
    have sj: "scan g N j = j" using False by (subst scan.simps) simp
    have rj: "scan_reads g b N j = [Rd (b + j)]" using False by (subst scan_reads.simps) simp
    show ?thesis
      unfolding E_def[symmetric] P_def[symmetric] b_def[symmetric] sj rj P'_def[symmetric]
      using step fin e by simp
  next
    case True
    have "unat param + (N + Suc j) < 65536" using top True by linarith
    from unat_addr_offset[OF this]
    have u1: "unat P' = b + Suc j" unfolding P'_def b_def by (simp only: add.assoc)
    have inb1: "b + Suc j < length (eeprom s)" using len True unfolding b_def by linarith
    have gj1: "eeprom s ! (b + Suc j) = g (Suc j)"
      using g[rule_format, OF True] unfolding b_def .
    have ne: "P' \<noteq> E" using fin True by simp
    let ?s2 = "s\<lparr>trace := trace s @ [Rd (b + j), Rd (b + Suc j)]\<rparr>"
    have step2: "find_loop E P s =
        (if g (Suc j) = g j + 1 then find_loop E P' ?s2 else Inr (P', ?s2))"
      unfolding step using ne inb1 gj1 by (simp add: EEPROM_Read_def u1)
    show ?thesis
    proof (cases "g (Suc j) = g j + 1")
      case False
      have sj: "scan g N j = j" using False by (subst scan.simps) simp
      have rj: "scan_reads g b N j = [Rd (b + j), Rd (b + Suc j)]"
        using False True by (subst scan_reads.simps) simp
      show ?thesis
        unfolding E_def[symmetric] P_def[symmetric] b_def[symmetric] sj rj P'_def[symmetric]
        using step2 False by simp
    next
      case asc: True
      have sj: "scan g N j = scan g N (Suc j)" using asc True by (subst scan.simps) simp
      have rj: "scan_reads g b N j = Rd (b + j) # Rd (b + Suc j) # scan_reads g b N (Suc j)"
        using asc True by (subst scan_reads.simps) simp
      have "find_loop (param + of_nat (N + N)) (param + of_nat (N + Suc j)) ?s2 =
           Inr (param + of_nat (N + Suc (scan g N (Suc j))),
                ?s2\<lparr>trace := trace ?s2 @ scan_reads g (unat param + N) N (Suc j)\<rparr>)"
        using "1.IH"[of ?s2] True asc len top g by simp
      then have ih: "find_loop E P' ?s2 =
           Inr (param + of_nat (N + Suc (scan g N (Suc j))),
                s\<lparr>trace := trace s @ Rd (b + j) # Rd (b + Suc j) # scan_reads g b N (Suc j)\<rparr>)"
        unfolding E_def P'_def b_def by simp
      show ?thesis
        unfolding E_def[symmetric] P_def[symmetric] b_def[symmetric] sj rj
        using step2 asc ih by simp
    qed
  qed
qed

lemma scan_bounds: "j < N \<Longrightarrow> j \<le> scan g N j \<and> scan g N j < N"
proof (induction g N j rule: scan.induct)
  case (1 g N j)
  show ?case
  proof (cases "Suc j < N \<and> g (Suc j) = g j + 1")
    case True
    then have "scan g N j = scan g N (Suc j)" by (subst scan.simps) auto
    with "1.IH" True show ?thesis by simp
  next
    case False
    then have "scan g N j = j" by (subst scan.simps) auto
    with "1.prems" show ?thesis by simp
  qed
qed

lemma scan_cong: "\<forall>i<N. g i = g' i \<Longrightarrow> scan g N j = scan g' N j"
proof (induction g N j rule: scan.induct)
  case (1 g N j)
  show ?case
  proof (cases "Suc j < N")
    case True
    then have e: "g (Suc j) = g' (Suc j)" "g j = g' j" using "1.prems" by simp_all
    show ?thesis
    proof (cases "g (Suc j) = g j + 1")
      case asc: True
      have "scan g N j = scan g N (Suc j)" using True asc by (subst scan.simps) auto
      moreover have "scan g' N j = scan g' N (Suc j)" using True asc e by (subst scan.simps) auto
      ultimately show ?thesis using "1.IH" True asc "1.prems" by simp
    next
      case False
      have "scan g N j = j" using False by (subst scan.simps) auto
      moreover have "scan g' N j = j" using False e by (subst scan.simps) auto
      ultimately show ?thesis by simp
    qed
  next
    case False
    have "scan g N j = j" using False by (subst scan.simps) auto
    moreover have "scan g' N j = j" using False by (subst scan.simps) auto
    ultimately show ?thesis by simp
  qed
qed

lemma scan_reads_range:
  "j < N \<Longrightarrow> x \<in> set (scan_reads g b N j) \<Longrightarrow> \<exists>c. x = Rd c \<and> b + j \<le> c \<and> c < b + N"
proof (induction g b N j rule: scan_reads.induct)
  case (1 g b N j)
  show ?case
  proof (cases "Suc j < N")
    case True
    show ?thesis
    proof (cases "g (Suc j) = g j + 1")
      case asc: True
      have "scan_reads g b N j = Rd (b + j) # Rd (b + Suc j) # scan_reads g b N (Suc j)"
        using True asc by (subst scan_reads.simps) auto
      with "1.prems" have "x = Rd (b + j) \<or> x = Rd (b + Suc j) \<or> x \<in> set (scan_reads g b N (Suc j))"
        by auto
      then show ?thesis using "1.IH"[OF True asc True] True by fastforce
    next
      case False
      have "scan_reads g b N j = [Rd (b + j), Rd (b + Suc j)]"
        using False True by (subst scan_reads.simps) auto
      with "1.prems" True show ?thesis by auto
    qed
  next
    case False
    have "scan_reads g b N j = [Rd (b + j)]" using False by (subst scan_reads.simps) auto
    with "1.prems" show ?thesis by auto
  qed
qed

lemma scan_reads_length: "j < N \<Longrightarrow> length (scan_reads g b N j) \<le> 2 * (N - j) - 1"
proof (induction g b N j rule: scan_reads.induct)
  case (1 g b N j)
  show ?case
  proof (cases "Suc j < N")
    case True
    show ?thesis
    proof (cases "g (Suc j) = g j + 1")
      case asc: True
      have "scan_reads g b N j = Rd (b + j) # Rd (b + Suc j) # scan_reads g b N (Suc j)"
        using True asc by (subst scan_reads.simps) auto
      then show ?thesis using "1.IH"[OF True asc True] True by simp
    next
      case False
      have "scan_reads g b N j = [Rd (b + j), Rd (b + Suc j)]"
        using False True by (subst scan_reads.simps) auto
      with True show ?thesis by simp
    qed
  next
    case False
    have "scan_reads g b N j = [Rd (b + j)]" using False by (subst scan_reads.simps) auto
    with "1.prems" show ?thesis by simp
  qed
qed

lemma active_less: "0 < N \<Longrightarrow> active N param s < N"
  unfolding active_def using scan_bounds[of 0 N] by simp

lemma FindCurrentAddress_fits:
  assumes "fits N param s" and "0 < N"
  shows "EEPROM_FindCurrentAddress N param s =
           Inr (param + of_nat (active N param s),
                s\<lparr>trace := trace s @ resolver_reads N param s\<rparr>)"
proof -
  have len: "unat param + 2 * N \<le> length (eeprom s)" and top: "unat param + 2 * N \<le> 65536"
    using assms(1) by (simp_all add: fits_def)
  have g: "\<forall>i<N. eeprom s ! (unat param + N + i) = gen N param s i" by (simp add: gen_def)
  have fl: "find_loop (param + of_nat N + of_nat N) (param + of_nat N) s =
           Inr (param + of_nat (N + Suc (active N param s)),
                s\<lparr>trace := trace s @ resolver_reads N param s\<rparr>)"
    using find_loop_scan[OF len top assms(2) g] by (simp add: active_def resolver_reads_def add.assoc)
  show ?thesis
    unfolding EEPROM_FindCurrentAddress_def Let_def fl by simp
qed

lemma next_slot_less: "k < N \<Longrightarrow> next_slot N k < N"
  by (auto simp: next_slot_def)

lemma next_slot_mod: "k < N \<Longrightarrow> next_slot N k = Suc k mod N"
  by (auto simp: next_slot_def)

lemma find_loop_pure:
  "find_loop e p s = Inr (a, s') \<Longrightarrow>
     eeprom s' = eeprom s \<and> (\<exists>rds. trace s' = trace s @ rds \<and> (\<forall>x\<in>set rds. \<exists>c. x = Rd c))"
proof (induction e p s arbitrary: a s' rule: find_loop.induct)
  case (1 e p s)
  from "1.prems" show ?case
    apply (subst (asm) find_loop.simps)
    apply (auto simp: EEPROM_Read_def split: if_splits sum.splits prod.splits dest!: "1.IH"[rotated -1])
    done
qed

lemma FindCurrentAddress_pure:
  assumes "EEPROM_FindCurrentAddress N param s = Inr (a, s0)"
  shows "eeprom s0 = eeprom s \<and> (\<exists>rds. trace s0 = trace s @ rds \<and> (\<forall>x\<in>set rds. \<exists>c. x = Rd c))"
proof (cases "find_loop (param + of_nat N + of_nat N) (param + of_nat N) s")
  case (Inl e)
  with assms show ?thesis by (simp add: EEPROM_FindCurrentAddress_def Let_def)
next
  case (Inr r)
  obtain q s' where r: "r = (q, s')" by (cases r)
  with Inr assms have "s' = s0" by (simp add: EEPROM_FindCurrentAddress_def Let_def)
  with Inr r find_loop_pure[of _ _ s q s0] show ?thesis by simp
qed

lemma ReadWearLeveledByte_fits:
  assumes "fits N param s" and "0 < N"
  shows "EEPROM_ReadWearLeveledByte N param s =
           Inr (dat param s (active N param s),
                s\<lparr>trace := trace s @ resolver_reads N param s @
                                [Rd (unat param + active N param s)]\<rparr>)"
proof -
  have k: "active N param s < N" using assms(2) by (rule active_less)
  have "unat param + active N param s < 65536" using assms(1) k by (simp add: fits_def)
  from unat_addr_offset[OF this]
  have u: "unat (param + of_nat (active N param s)) = unat param + active N param s" .
  have inb: "unat param + active N param s < length (eeprom s)"
    using assms(1) k by (simp add: fits_def)
  show ?thesis
    unfolding EEPROM_ReadWearLeveledByte_def FindCurrentAddress_fits[OF assms]
    using inb by (simp add: EEPROM_Read_def u dat_def)
qed

lemma WriteWearLeveledByte_fits:
  assumes "fits N param s" and "0 < N"
  shows "EEPROM_WriteWearLeveledByte N param d s =
     Inr (if dat param s (active N param s) = d
          then s\<lparr>trace := trace s @ resolver_reads N param s @
                              [Rd (unat param + active N param s)]\<rparr>
          else s\<lparr>eeprom := (eeprom s)
                    [unat param + next_slot N (active N param s) := d,
                     unat param + next_slot N (active N param s) + N :=
                       gen N param s (active N param s) + 1],
                 trace := trace s @ resolver_reads N param s @
                    [Rd (unat param + active N param s),
                     Rd (unat param + active N param s + N),
                     Wr (unat param + next_slot N (active N param s)) d,
                     Wr (unat param + next_slot N (active N param s) + N)
                        (gen N param s (active N param s) + 1)]\<rparr>)"
proof -
  define k where "k = active N param s"
  define k' where "k' = next_slot N k"
  define p where "p = unat param"
  define A where "A = param + of_nat k"
  define A' where "A' = (if unat (A + 1) = unat param + N then param else A + 1)"
  have k: "k < N" unfolding k_def using assms(2) by (rule active_less)
  have k': "k' < N" unfolding k'_def using k by (rule next_slot_less)
  have len: "p + 2 * N \<le> length (eeprom s)" and top: "p + 2 * N \<le> 65536"
    using assms(1) by (simp_all add: fits_def p_def)
  have "unat param + k < 65536" using top k by (simp add: p_def)
  from unat_addr_offset[OF this] have uA: "unat A = p + k" unfolding A_def p_def .
  have e1: "A + 1 = param + of_nat (Suc k)" unfolding A_def by simp
  have "unat param + Suc k < 65536" using top k by (simp add: p_def)
  from unat_addr_offset[OF this] have uA1: "unat (A + 1) = p + Suc k" unfolding e1 p_def .
  have "unat param + k' < 65536" using top k' by (simp add: p_def)
  from unat_addr_offset[OF this] have uk': "unat (param + of_nat k') = p + k'"
    unfolding p_def .
  have A': "unat A' = p + k'"
  proof (cases "Suc k = N")
    case True
    then show ?thesis by (simp add: A'_def uA1 k'_def next_slot_def p_def)
  next
    case False
    then have "A' = A + 1" "k' = Suc k"
      by (simp_all add: A'_def uA1 k'_def next_slot_def p_def)
    then show ?thesis by (simp only: uA1)
  qed
  have find: "EEPROM_FindCurrentAddress N param s =
      Inr (A, s\<lparr>trace := trace s @ resolver_reads N param s\<rparr>)"
    unfolding A_def k_def by (rule FindCurrentAddress_fits[OF assms])
  have b1: "p + k < length (eeprom s)" "p + k + N < length (eeprom s)"
    "p + k' < length (eeprom s)" "p + k' + N < length (eeprom s)"
    using len k k' by simp_all
  have "EEPROM_WriteWearLeveledByte N param d s =
     Inr (if eeprom s ! (p + k) = d
          then s\<lparr>trace := trace s @ resolver_reads N param s @ [Rd (p + k)]\<rparr>
          else s\<lparr>eeprom := (eeprom s)[p + k' := d, p + k' + N := eeprom s ! (p + k + N) + 1],
                 trace := trace s @ resolver_reads N param s @
                    [Rd (p + k), Rd (p + k + N), Wr (p + k') d,
                     Wr (p + k' + N) (eeprom s ! (p + k + N) + 1)]\<rparr>)"
    unfolding EEPROM_WriteWearLeveledByte_def find
    using b1 by (simp add: EEPROM_Read_def EEPROM_Write_def uA Let_def A'_def[symmetric] A')
  then show ?thesis
    unfolding k_def[symmetric] k'_def[symmetric] p_def[symmetric] dat_def gen_def
    by (simp add: add.commute add.left_commute add.assoc)
qed

section \<open>What initialization writes\<close>

lemma unat_of_nat_byte: "n < 256 \<Longrightarrow> unat (of_nat n :: byte) = n"
  by (simp add: unat_of_nat)

lemma init_loop_run:
  assumes "N < 256" and "unat param + 2 * N \<le> length (eeprom s)" and "i \<le> N"
  shows "\<exists>cs. init_loop N param (of_nat i) s =
            Some (Inr (s\<lparr>eeprom := cs,
                         trace := trace s @ map (\<lambda>j. Wr (j + unat param + N) (of_nat j - 1)) [i..<N]\<rparr>))
          \<and> length cs = length (eeprom s)
          \<and> (\<forall>a<length cs. cs ! a =
                (if unat param + N + i \<le> a \<and> a < unat param + 2 * N
                 then of_nat (a - unat param - N) - 1 else eeprom s ! a))"
  using assms
proof (induction "N - i" arbitrary: i s)
  case 0
  then have i: "i = N" by simp
  have u: "unat (of_nat N :: byte) = N" using "0.prems"(1) by (rule unat_of_nat_byte)
  have "init_loop N param (of_nat i) s = Some (Inr s)"
    by (subst init_loop.simps) (simp add: i u)
  then show ?case
    by (intro exI[of _ "eeprom s"]) (auto simp add: i)
next
  case (Suc n)
  then have lt: "i < N" by simp
  define p where "p = unat param"
  have u: "unat (of_nat i :: byte) = i" using "Suc.prems"(1) lt by (intro unat_of_nat_byte) simp
  have inb: "i + p + N < length (eeprom s)" using Suc.prems(2) lt by (simp add: p_def)
  let ?s' = "s\<lparr>eeprom := (eeprom s)[i + p + N := of_nat i - 1],
                trace := trace s @ [Wr (i + p + N) (of_nat i - 1)]\<rparr>"
  have step: "init_loop N param (of_nat i) s = init_loop N param (of_nat (Suc i)) ?s'"
    using inb lt by (subst init_loop.simps) (simp add: u EEPROM_Write_def p_def add.commute)
  have "n = N - Suc i" using Suc.hyps(2) by simp
  from Suc.hyps(1)[OF this Suc.prems(1), of ?s'] Suc.prems(2) lt
  obtain cs where
    r: "init_loop N param (of_nat (Suc i)) ?s' =
          Some (Inr (?s'\<lparr>eeprom := cs,
                 trace := trace ?s' @ map (\<lambda>j. Wr (j + p + N) (of_nat j - 1)) [Suc i..<N]\<rparr>))"
    and l: "length cs = length (eeprom s)"
    and c: "\<forall>a<length cs. cs ! a =
                (if p + N + Suc i \<le> a \<and> a < p + 2 * N
                 then of_nat (a - p - N) - 1 else (eeprom s)[i + p + N := of_nat i - 1] ! a)"
    unfolding p_def by auto
  have upt: "[i..<N] = i # [Suc i..<N]" using lt by (rule upt_conv_Cons)
  have c': "\<forall>a<length cs. cs ! a =
                (if p + N + i \<le> a \<and> a < p + 2 * N
                 then of_nat (a - p - N) - 1 else eeprom s ! a)"
  proof (intro allI impI)
    fix a assume a: "a < length cs"
    show "cs ! a = (if p + N + i \<le> a \<and> a < p + 2 * N
                 then of_nat (a - p - N) - 1 else eeprom s ! a)"
    proof (cases "a = i + p + N")
      case True
      then have "cs ! a = of_nat i - 1" using c a l inb by simp
      moreover have "a - p - N = i" using True by simp
      ultimately show ?thesis using True lt by simp
    next
      case False
      then show ?thesis using c a by auto
    qed
  qed
  show ?case
    unfolding p_def[symmetric] step r
    using l c' by (intro exI[of _ cs]) (simp add: upt)
qed

lemma InitWearLeveledByte_fits:
  assumes "0 < N" and "N < 256" and "fits N param s"
  shows "EEPROM_InitWearLeveledByte N param v s =
           Some (Inr (v, s\<lparr>eeprom := init_cells N (unat param) v (eeprom s),
                            trace := trace s @ init_writes N (unat param) v\<rparr>))"
proof -
  define p where "p = unat param"
  have len: "p + 2 * N \<le> length (eeprom s)" using assms(3) by (simp add: fits_def p_def)
  let ?s1 = "s\<lparr>eeprom := (eeprom s)[p + N := of_nat N - 1],
                trace := trace s @ [Wr (p + N) (of_nat N - 1)]\<rparr>"
  have w1: "EEPROM_Write (unat param + N) (of_nat N - 1) s = Inr ?s1"
    using len assms(1) by (simp add: EEPROM_Write_def p_def)
  have "unat param + 2 * N \<le> length (eeprom ?s1)" using len by (simp add: p_def)
  from init_loop_run[OF assms(2) this, of 1] assms(1)
  obtain cs where
    lp: "init_loop N param 1 ?s1 =
          Some (Inr (?s1\<lparr>eeprom := cs,
                 trace := trace ?s1 @ map (\<lambda>j. Wr (j + p + N) (of_nat j - 1)) [1..<N]\<rparr>))"
    and l: "length cs = length (eeprom s)"
    and c: "\<forall>a<length cs. cs ! a =
                (if p + N + 1 \<le> a \<and> a < p + 2 * N
                 then of_nat (a - p - N) - 1 else (eeprom s)[p + N := of_nat N - 1] ! a)"
    unfolding p_def by auto
  have inb: "p < length cs" "p + N < length (eeprom s)" using len l assms(1) by simp_all
  have cells: "cs[p := v] = init_cells N p v (eeprom s)"
  proof (rule nth_equalityI)
    show "length (cs[p := v]) = length (init_cells N p v (eeprom s))"
      by (simp add: l init_cells_def)
  next
    fix a assume "a < length (cs[p := v])"
    then have a: "a < length cs" by simp
    show "cs[p := v] ! a = init_cells N p v (eeprom s) ! a"
      using a c inb assms(1) l by (auto simp: init_cells_def nth_list_update)
  qed
  show ?thesis
    unfolding EEPROM_InitWearLeveledByte_def w1 p_def[symmetric]
    using inb by (simp add: lp EEPROM_Write_def cells init_writes_def)
qed

lemma init_cells_length: "length (init_cells N p v cs) = length cs"
  by (simp add: init_cells_def)

lemma init_cells_nth:
  "a < length cs \<Longrightarrow> init_cells N p v cs ! a =
     (if a = p then v
      else if a = p + N then of_nat N - 1
      else if p + N < a \<and> a < p + 2 * N then of_nat (a - p - N) - 1
      else cs ! a)"
  by (simp add: init_cells_def)

section \<open>The single ascending run\<close>

lemma of_nat_byte_eq_0: "n < 256 \<Longrightarrow> ((of_nat n :: byte) = 0) = (n = 0)"
proof
  assume n: "n < 256" and z: "(of_nat n :: byte) = 0"
  have "unat (of_nat n :: byte) = n" using n by (simp add: unat_of_nat)
  with z show "n = 0" by simp
qed simp

lemma single_run_unique: "single_run N g k \<Longrightarrow> single_run N g k' \<Longrightarrow> k = k'"
  unfolding single_run_def
  by (metis Suc_lessI diff_Suc_1 less_imp_Suc_add add_diff_cancel_left' plus_1_eq_Suc)

lemma single_run_scan_from:
  "single_run N g k \<Longrightarrow> j \<le> k \<Longrightarrow> scan g N j = k"
proof (induction "k - j" arbitrary: j)
  case 0
  then have jk: "j = k" by simp
  from "0.prems"(1) have "\<not> (Suc k < N \<and> g (Suc k) = g k + 1)"
    unfolding single_run_def by auto
  then show ?case unfolding jk by (subst scan.simps) auto
next
  case (Suc n)
  then have lt: "j < k" by simp
  from Suc.prems(1) have kN: "k < N" by (simp add: single_run_def)
  from Suc.prems(1) lt kN have asc: "g (Suc j) = g j + 1"
    unfolding single_run_def by auto
  have "scan g N j = scan g N (Suc j)" using lt kN asc by (subst scan.simps) auto
  also have "\<dots> = k" using Suc.hyps(1)[of "Suc j"] Suc.hyps(2) Suc.prems(1) lt by simp
  finally show ?case .
qed

lemma single_run_scan: "single_run N g k \<Longrightarrow> scan g N 0 = k"
  by (rule single_run_scan_from) simp_all

lemma ascending_from_0:
  "\<forall>j. Suc j < N \<longrightarrow> g (Suc j) = g j + 1 \<Longrightarrow> j < N \<Longrightarrow> g j = g 0 + (of_nat j :: byte)"
  by (induction j) (simp_all add: add.assoc)

lemma single_run_next:
  assumes "single_run N g k" and "N < 256"
  shows "single_run N (g(next_slot N k := g k + 1)) (next_slot N k)"
proof -
  from assms(1) have kN: "k < N"
    and asc: "\<forall>j. Suc j < N \<and> j \<noteq> k \<longrightarrow> g (Suc j) = g j + 1"
    and bnd: "k = N - 1 \<or> g (Suc k) \<noteq> g k + 1"
    by (simp_all add: single_run_def)
  show ?thesis
  proof (cases "Suc k = N")
    case False
    then have k': "next_slot N k = Suc k" and lt: "Suc k < N" using kN by (simp_all add: next_slot_def)
    from bnd False kN have brk: "g (Suc k) \<noteq> g k + 1" by auto
    show ?thesis
      unfolding k' single_run_def
    proof (intro conjI allI impI)
      show "Suc k < N" by (rule lt)
    next
      fix j assume j: "Suc j < N \<and> j \<noteq> Suc k"
      show "(g(Suc k := g k + 1)) (Suc j) = (g(Suc k := g k + 1)) j + 1"
        using j asc by (cases "j = k") auto
    next
      show "Suc k = N - 1 \<or> (g(Suc k := g k + 1)) (Suc (Suc k)) \<noteq> (g(Suc k := g k + 1)) (Suc k) + 1"
      proof (cases "Suc (Suc k) < N")
        case True
        then have "g (Suc (Suc k)) = g (Suc k) + 1" using asc by simp
        moreover have "g (Suc k) + 1 \<noteq> g k + 1 + 1"
          using brk by (simp only: add_right_cancel not_False_eq_True)
        ultimately have "(g(Suc k := g k + 1)) (Suc (Suc k)) \<noteq> (g(Suc k := g k + 1)) (Suc k) + 1"
          by (simp only: fun_upd_apply) simp
        then show ?thesis ..
      next
        case False
        with lt have "Suc k = N - 1" by linarith
        then show ?thesis ..
      qed
    qed
  next
    case True
    then have k': "next_slot N k = 0" by (simp add: next_slot_def)
    have all: "\<forall>j. Suc j < N \<longrightarrow> g (Suc j) = g j + 1" using asc True by auto
    have gk: "g k = g 0 + of_nat k" using ascending_from_0[OF all kN] .
    have N0: "(of_nat N :: byte) \<noteq> 0" using of_nat_byte_eq_0[OF assms(2)] kN by simp
    show ?thesis
      unfolding k' single_run_def
    proof (intro conjI allI impI)
      show "0 < N" using kN by simp
    next
      fix j assume j: "Suc j < N \<and> j \<noteq> 0"
      then show "(g(0 := g k + 1)) (Suc j) = (g(0 := g k + 1)) j + 1" using all by simp
    next
      show "0 = N - 1 \<or> (g(0 := g k + 1)) (Suc 0) \<noteq> (g(0 := g k + 1)) 0 + 1"
      proof (cases "Suc 0 < N")
        case False
        then show ?thesis using kN by simp
      next
        case one: True
        then have g1: "g (Suc 0) = g 0 + 1" using all by simp
        have "g k + 1 = g 0 + of_nat N" using gk True[symmetric] by (simp add: add.assoc add.commute)
        then have "(g(0 := g k + 1)) 0 + 1 = g 0 + 1 + of_nat N" by (simp add: add.assoc add.commute)
        moreover have "g 0 + 1 \<noteq> g 0 + 1 + (of_nat N :: byte)" using N0 by simp
        ultimately show ?thesis using g1 by simp
      qed
    qed
  qed
qed

lemma single_run_init:
  assumes "0 < N" and "N < 256"
    and g0: "g 0 = of_nat N - 1" and gj: "\<forall>j. 0 < j \<and> j < N \<longrightarrow> g j = of_nat j - 1"
  shows "single_run N g 0"
  unfolding single_run_def
proof (intro conjI allI impI)
  show "0 < N" by (rule assms(1))
next
  fix j assume "Suc j < N \<and> j \<noteq> 0"
  then show "g (Suc j) = g j + 1" using gj by simp
next
  show "0 = N - 1 \<or> g (Suc 0) \<noteq> g 0 + 1"
  proof (cases "Suc 0 < N")
    case False
    then show ?thesis using assms(1) by simp
  next
    case True
    then have "g (Suc 0) = 0" using gj by simp
    moreover have "g 0 + 1 = of_nat N" using g0 by simp
    moreover have "(of_nat N :: byte) \<noteq> 0" using of_nat_byte_eq_0[OF assms(2)] assms(1) by simp
    ultimately show ?thesis by simp
  qed
qed

section \<open>Initialized groups\<close>

lemma gen_trace_update [simp]: "gen N param (s\<lparr>trace := t\<rparr>) = gen N param s"
  by (rule ext) (simp add: gen_def)

lemma dat_trace_update [simp]: "dat param (s\<lparr>trace := t\<rparr>) = dat param s"
  by (rule ext) (simp add: dat_def)

lemma fits_trace_update [simp]: "fits N param (s\<lparr>trace := t\<rparr>) = fits N param s"
  by (simp add: fits_def)

lemma last_data_write_append:
  "last_data_write p N (xs @ ys) =
     (case last_data_write p N ys of Some a \<Rightarrow> Some a | None \<Rightarrow> last_data_write p N xs)"
  by (induction xs) (auto split: option.splits access.splits)

lemma last_data_write_reads:
  "\<forall>x\<in>set xs. \<exists>c. x = Rd c \<Longrightarrow> last_data_write p N xs = None"
  by (induction xs) (auto split: option.splits)

lemma resolver_reads_are_reads:
  "0 < N \<Longrightarrow> \<forall>x\<in>set (resolver_reads N param s). \<exists>c. x = Rd c"
  unfolding resolver_reads_def using scan_reads_range[of 0 N] by blast

lemma last_data_write_init: "0 < N \<Longrightarrow> last_data_write p N (init_writes N p v) = Some p"
  by (simp add: init_writes_def last_data_write_append)

lemma gen_after_init:
  assumes "0 < N" and "fits N param s" and "j < N"
  shows "gen N param (s\<lparr>eeprom := init_cells N (unat param) v (eeprom s)\<rparr>) j =
           (if j = 0 then of_nat N - 1 else of_nat j - 1)"
  using assms by (simp add: gen_def fits_def init_cells_nth)

lemma dat_after_init:
  assumes "0 < N" and "fits N param s"
  shows "dat param (s\<lparr>eeprom := init_cells N (unat param) v (eeprom s)\<rparr>) 0 = v"
  using assms by (simp add: dat_def fits_def init_cells_nth)

lemma initialized_init:
  assumes "0 < N" and "N < 256" and "fits N param s"
  shows "\<exists>s0. EEPROM_InitWearLeveledByte N param v s = Some (Inr (v, s0)) \<and>
              initialized N param s0 0 v \<and>
              last_data_write (unat param) N (trace s0) = Some (unat param)"
proof -
  let ?s0 = "s\<lparr>eeprom := init_cells N (unat param) v (eeprom s),
               trace := trace s @ init_writes N (unat param) v\<rparr>"
  have f: "fits N param ?s0" using assms(3) by (simp add: fits_def init_cells_length)
  have r: "single_run N (gen N param ?s0) 0"
    using assms by (intro single_run_init) (simp_all add: gen_after_init)
  have d: "dat param ?s0 0 = v" using assms by (simp add: dat_after_init)
  have l: "last_data_write (unat param) N (trace ?s0) = Some (unat param)"
    using assms(1) by (simp add: last_data_write_append last_data_write_init)
  show ?thesis
    unfolding InitWearLeveledByte_fits[OF assms] initialized_def using f r d l by blast
qed

lemma initialized_active: "initialized N param s k v \<Longrightarrow> active N param s = k"
  unfolding initialized_def active_def by (simp add: single_run_scan)

lemma initialized_write:
  assumes "0 < N" and "N < 256" and inv: "initialized N param s k v"
  shows "\<exists>s'. EEPROM_WriteWearLeveledByte N param d s = Inr s' \<and>
              initialized N param s' (if d = v then k else next_slot N k) d \<and>
              last_data_write (unat param) N (trace s') =
                (if d = v then last_data_write (unat param) N (trace s)
                 else Some (unat param + next_slot N k))"
proof -
  define p where "p = unat param"
  from inv have f: "fits N param s" and sr: "single_run N (gen N param s) k"
    and dv: "dat param s k = v"
    by (simp_all add: initialized_def)
  have act: "active N param s = k" using inv by (rule initialized_active)
  have kN: "k < N" using sr by (simp add: single_run_def)
  have rr: "last_data_write p N (resolver_reads N param s) = None"
    using resolver_reads_are_reads[OF assms(1)] by (rule last_data_write_reads)
  note w = WriteWearLeveledByte_fits[OF f assms(1), of d, unfolded act dv]
  show ?thesis
  proof (cases "d = v")
    case True
    let ?s' = "s\<lparr>trace := trace s @ resolver_reads N param s @ [Rd (unat param + k)]\<rparr>"
    have "initialized N param ?s' k d"
      using f sr dv True by (simp add: initialized_def)
    moreover have "last_data_write p N (trace ?s') = last_data_write p N (trace s)"
      using rr by (simp add: last_data_write_append)
    ultimately show ?thesis using w True by (simp add: p_def)
  next
    case False
    define k' where "k' = next_slot N k"
    have k': "k' < N" unfolding k'_def using kN by (rule next_slot_less)
    let ?cs = "(eeprom s)[p + k' := d, p + k' + N := gen N param s k + 1]"
    let ?s' = "s\<lparr>eeprom := ?cs,
                 trace := trace s @ resolver_reads N param s @
                    [Rd (p + k), Rd (p + k + N), Wr (p + k') d,
                     Wr (p + k' + N) (gen N param s k + 1)]\<rparr>"
    have len: "p + 2 * N \<le> length (eeprom s)" using f by (simp add: fits_def p_def)
    have f': "fits N param ?s'" using f by (simp add: fits_def)
    have g': "gen N param ?s' = (gen N param s)(k' := gen N param s k + 1)"
    proof
      fix j
      show "gen N param ?s' j = ((gen N param s)(k' := gen N param s k + 1)) j"
        using len k' by (simp add: gen_def p_def nth_list_update add.commute add.left_commute)
    qed
    have "single_run N ((gen N param s)(k' := gen N param s k + 1)) k'"
      unfolding k'_def by (rule single_run_next[OF sr assms(2)])
    then have sr': "single_run N (gen N param ?s') k'" by (simp only: g')
    have d': "dat param ?s' k' = d"
      using len k' by (simp add: dat_def p_def nth_list_update)
    have l': "last_data_write p N (trace ?s') = Some (p + k')"
      using k' by (simp add: last_data_write_append)
    have "initialized N param ?s' k' d"
      unfolding initialized_def using f' sr' d' by simp
    with w False l' show ?thesis by (simp add: k'_def p_def)
  qed
qed

lemma initialized_resolve:
  assumes "0 < N" and "initialized N param s k v"
  shows "EEPROM_FindCurrentAddress N param s =
           Inr (param + of_nat k, s\<lparr>trace := trace s @ resolver_reads N param s\<rparr>)"
    and "EEPROM_ReadWearLeveledByte N param s =
           Inr (v, s\<lparr>trace := trace s @ resolver_reads N param s @ [Rd (unat param + k)]\<rparr>)"
proof -
  from assms(2) have f: "fits N param s" and dv: "dat param s k = v"
    by (simp_all add: initialized_def)
  have act: "active N param s = k" using assms(2) by (rule initialized_active)
  show "EEPROM_FindCurrentAddress N param s =
           Inr (param + of_nat k, s\<lparr>trace := trace s @ resolver_reads N param s\<rparr>)"
    using FindCurrentAddress_fits[OF f assms(1)] by (simp add: act)
  show "EEPROM_ReadWearLeveledByte N param s =
           Inr (v, s\<lparr>trace := trace s @ resolver_reads N param s @ [Rd (unat param + k)]\<rparr>)"
    using ReadWearLeveledByte_fits[OF f assms(1)] by (simp add: act dv)
qed

lemma initialized_write_seq:
  assumes "0 < N" and "N < 256" and "initialized N param s k v"
    and "last_data_write (unat param) N (trace s) = Some (unat param + k)"
  shows "\<exists>s' k'. write_seq N param vs s = Inr s' \<and> initialized N param s' k' (last (v # vs)) \<and>
            last_data_write (unat param) N (trace s') = Some (unat param + k')"
  using assms(3,4)
proof (induction vs arbitrary: s k v)
  case Nil
  then show ?case by auto
next
  case (Cons x xs)
  from initialized_write[OF assms(1,2) Cons.prems(1), of x] Cons.prems(2)
  obtain s1 k1 where w: "EEPROM_WriteWearLeveledByte N param x s = Inr s1"
    and i1: "initialized N param s1 k1 x"
    and l1: "last_data_write (unat param) N (trace s1) = Some (unat param + k1)"
    by (cases "x = v") auto
  from Cons.IH[OF i1 l1] w show ?case by auto
qed

lemma initialized_write_seq_changing:
  assumes "0 < N" and "N < 256" and "initialized N param s k v" and "distinct_adj (v # vs)"
  shows "\<exists>s'. write_seq N param vs s = Inr s' \<and>
              initialized N param s' ((k + length vs) mod N) (last (v # vs))"
  using assms(3,4)
proof (induction vs arbitrary: s k v)
  case Nil
  then have "k < N" by (simp add: initialized_def single_run_def)
  with Nil show ?case by auto
next
  case (Cons x xs)
  from Cons.prems(2) have ne: "x \<noteq> v" and da: "distinct_adj (x # xs)" by auto
  from Cons.prems(1) have kN: "k < N" by (simp add: initialized_def single_run_def)
  from initialized_write[OF assms(1,2) Cons.prems(1), of x] ne
  obtain s1 where w: "EEPROM_WriteWearLeveledByte N param x s = Inr s1"
    and i1: "initialized N param s1 (next_slot N k) x"
    by auto
  have "(next_slot N k + length xs) mod N = (k + length (x # xs)) mod N"
    using next_slot_mod[OF kN] by (simp add: mod_add_left_eq)
  with Cons.IH[OF i1 da] w show ?case by auto
qed

section \<open>Safety of the resolver on arbitrary content\<close>

text \<open>
  Claim C9. For every \<open>N \<ge> 1\<close> and every content of the medium (initialized or not), on a
  slot-group that fits the medium \<open>EEPROM_FindCurrentAddress\<close> returns (it is a total function
  and its result is not an error); every access it makes is a read of a counter cell, at an
  address in \<open>[param + N, param + 2N)\<close>, so it reads at most \<open>N\<close> distinct cells (in at most
  \<open>2N - 1\<close> read operations, since the loop condition and the next iteration read the same
  cell); it leaves the cells unchanged; and the address it returns lies in the data region
  \<open>[param, param + N)\<close>.
\<close>

theorem FindCurrentAddress_safe:
  assumes "0 < N" and "fits N param s"
  shows "\<exists>a rds. EEPROM_FindCurrentAddress N param s = Inr (a, s\<lparr>trace := trace s @ rds\<rparr>)
           \<and> unat param \<le> unat a \<and> unat a < unat param + N
           \<and> (\<forall>x\<in>set rds. \<exists>c. x = Rd c \<and> unat param + N \<le> c \<and> c < unat param + 2 * N)
           \<and> card {c. Rd c \<in> set rds} \<le> N
           \<and> length rds \<le> 2 * N - 1"
proof -
  define k where "k = active N param s"
  define rds where "rds = resolver_reads N param s"
  have k: "k < N" unfolding k_def using assms(1) by (rule active_less)
  have "unat param + k < 65536" using assms(2) k by (simp add: fits_def)
  from unat_addr_offset[OF this] have u: "unat (param + of_nat k) = unat param + k" .
  have rng: "\<forall>x\<in>set rds. \<exists>c. x = Rd c \<and> unat param + N \<le> c \<and> c < unat param + 2 * N"
  proof
    fix x assume "x \<in> set rds"
    from scan_reads_range[OF assms(1) this[unfolded rds_def resolver_reads_def]]
    show "\<exists>c. x = Rd c \<and> unat param + N \<le> c \<and> c < unat param + 2 * N" by auto
  qed
  then have "{c. Rd c \<in> set rds} \<subseteq> {unat param + N ..< unat param + 2 * N}" by auto
  then have "card {c. Rd c \<in> set rds} \<le> card {unat param + N ..< unat param + 2 * N}"
    by (intro card_mono) simp_all
  then have crd: "card {c. Rd c \<in> set rds} \<le> N" by simp
  have ln: "length rds \<le> 2 * N - 1"
    unfolding rds_def resolver_reads_def using scan_reads_length[OF assms(1)] by simp
  have "EEPROM_FindCurrentAddress N param s = Inr (param + of_nat k, s\<lparr>trace := trace s @ rds\<rparr>)"
    unfolding k_def rds_def by (rule FindCurrentAddress_fits[OF assms(2,1)])
  with u k rng crd ln show ?thesis by (intro exI[of _ "param + of_nat k"] exI[of _ rds]) simp
qed

theorem FindCurrentAddress_safe_witness:
  "fits 8 0 (eeprom_initial 512) \<and>
   (\<exists>a rds. EEPROM_FindCurrentAddress 8 0 (eeprom_initial 512) =
               Inr (a, (eeprom_initial 512)\<lparr>trace := trace (eeprom_initial 512) @ rds\<rparr>)
           \<and> unat (0::addr) \<le> unat a \<and> unat a < unat (0::addr) + 8
           \<and> (\<forall>x\<in>set rds. \<exists>c. x = Rd c \<and> unat (0::addr) + 8 \<le> c \<and> c < unat (0::addr) + 2 * 8)
           \<and> card {c. Rd c \<in> set rds} \<le> 8
           \<and> length rds \<le> 2 * 8 - 1)"
proof -
  have h: "fits 8 0 (eeprom_initial 512)" by (simp add: fits_def eeprom_initial_def)
  have z: "(0::nat) < 8" by simp
  from FindCurrentAddress_safe[OF z h] h show ?thesis by (rule conjI[rotated])
qed

section \<open>Write elision\<close>

text \<open>
  Claim C4. If \<open>EEPROM_ReadWearLeveledByte\<close> returns \<open>v\<close> on a medium, then
  \<open>EEPROM_WriteWearLeveledByte\<close> with the same \<open>v\<close> on that medium returns without a single
  write: every cell of the medium (not only the group's \<open>2N\<close> cells) is as before, and
  the only accesses it adds to the trace are reads.
\<close>

theorem write_elision:
  assumes "EEPROM_ReadWearLeveledByte N param s = Inr (v, s1)"
  shows "EEPROM_WriteWearLeveledByte N param v s = Inr s1
           \<and> eeprom s1 = eeprom s
           \<and> (\<exists>rds. trace s1 = trace s @ rds \<and> (\<forall>x\<in>set rds. \<exists>c. x = Rd c))"
proof (cases "EEPROM_FindCurrentAddress N param s")
  case (Inl e)
  with assms show ?thesis by (simp add: EEPROM_ReadWearLeveledByte_def)
next
  case (Inr r)
  obtain a s0 where r: "r = (a, s0)" by (cases r)
  have f: "EEPROM_FindCurrentAddress N param s = Inr (a, s0)" using Inr r by simp
  have rd: "EEPROM_Read (unat a) s0 = Inr (v, s1)"
    using assms unfolding EEPROM_ReadWearLeveledByte_def f by simp
  from FindCurrentAddress_pure[OF f] obtain rds where
    p0: "eeprom s0 = eeprom s" "trace s0 = trace s @ rds" "\<forall>x\<in>set rds. \<exists>c. x = Rd c" by auto
  have inb: "unat a < length (eeprom s0)"
    using rd by (cases "unat a < length (eeprom s0)") (simp_all add: EEPROM_Read_def)
  with rd have s1: "s1 = s0\<lparr>trace := trace s0 @ [Rd (unat a)]\<rparr>"
    by (simp add: EEPROM_Read_def)
  have p1: "eeprom s1 = eeprom s" "trace s1 = trace s @ (rds @ [Rd (unat a)])"
    using p0 by (simp_all add: s1)
  have w: "EEPROM_WriteWearLeveledByte N param v s = Inr s1"
    unfolding EEPROM_WriteWearLeveledByte_def f using rd by simp
  have "\<forall>x\<in>set (rds @ [Rd (unat a)]). \<exists>c. x = Rd c" using p0(3) by simp
  with p1(2) have "\<exists>rds. trace s1 = trace s @ rds \<and> (\<forall>x\<in>set rds. \<exists>c. x = Rd c)" by (rule_tac x="rds @ [Rd (unat a)]" in exI) (rule conjI)
  with w p1(1) show ?thesis by simp
qed

theorem write_elision_witness:
  "EEPROM_ReadWearLeveledByte 8 0
     \<lparr>eeprom = [0x40, 0x41, 0xFF, 0xFF, 0xFF, 0xFF, 0xFF, 0xFF, 7, 8, 1, 2, 3, 4, 5, 6], trace = []\<rparr> =
     Inr (0x41, \<lparr>eeprom = [0x40, 0x41, 0xFF, 0xFF, 0xFF, 0xFF, 0xFF, 0xFF, 7, 8, 1, 2, 3, 4, 5, 6],
                trace = [Rd 8, Rd 9, Rd 9, Rd 10, Rd 1]\<rparr>) \<and>
   EEPROM_WriteWearLeveledByte 8 0 0x41
     \<lparr>eeprom = [0x40, 0x41, 0xFF, 0xFF, 0xFF, 0xFF, 0xFF, 0xFF, 7, 8, 1, 2, 3, 4, 5, 6], trace = []\<rparr> =
     Inr \<lparr>eeprom = [0x40, 0x41, 0xFF, 0xFF, 0xFF, 0xFF, 0xFF, 0xFF, 7, 8, 1, 2, 3, 4, 5, 6],
          trace = [Rd 8, Rd 9, Rd 9, Rd 10, Rd 1]\<rparr>"
proof -
  have h: "EEPROM_ReadWearLeveledByte 8 0
     \<lparr>eeprom = [0x40, 0x41, 0xFF, 0xFF, 0xFF, 0xFF, 0xFF, 0xFF, 7, 8, 1, 2, 3, 4, 5, 6], trace = []\<rparr> =
     Inr (0x41, \<lparr>eeprom = [0x40, 0x41, 0xFF, 0xFF, 0xFF, 0xFF, 0xFF, 0xFF, 7, 8, 1, 2, 3, 4, 5, 6],
                trace = [Rd 8, Rd 9, Rd 9, Rd 10, Rd 1]\<rparr>)"
    by code_simp
  from write_elision[OF h] have "EEPROM_WriteWearLeveledByte 8 0 0x41
     \<lparr>eeprom = [0x40, 0x41, 0xFF, 0xFF, 0xFF, 0xFF, 0xFF, 0xFF, 7, 8, 1, 2, 3, 4, 5, 6], trace = []\<rparr> =
     Inr \<lparr>eeprom = [0x40, 0x41, 0xFF, 0xFF, 0xFF, 0xFF, 0xFF, 0xFF, 7, 8, 1, 2, 3, 4, 5, 6],
          trace = [Rd 8, Rd 9, Rd 9, Rd 10, Rd 1]\<rparr>" by (rule conjunct1)
  with h show ?thesis by (rule conjI)
qed

section \<open>Round trip of initialization\<close>

text \<open>
  Claim C5. For every wear-level factor the loop counter can hold (\<open>0 < N < 256\<close>), every
  offset whose slot-group fits the medium and every byte \<open>v\<close>:
  \<open>EEPROM_InitWearLeveledByte\<close> returns, its result is \<open>v\<close>, and on the medium it leaves the
  resolver returns \<open>param\<close> itself (slot 0 is the active slot) and
  \<open>EEPROM_ReadWearLeveledByte\<close> returns \<open>v\<close>.
\<close>

theorem init_round_trip:
  assumes "0 < N" and "N < 256" and "fits N param s"
  shows "\<exists>s0 s1 s2. EEPROM_InitWearLeveledByte N param v s = Some (Inr (v, s0))
           \<and> EEPROM_FindCurrentAddress N param s0 = Inr (param, s1)
           \<and> EEPROM_ReadWearLeveledByte N param s0 = Inr (v, s2)"
proof -
  from initialized_init[OF assms] obtain s0 where
    i: "EEPROM_InitWearLeveledByte N param v s = Some (Inr (v, s0))"
    and inv: "initialized N param s0 0 v" by blast
  from initialized_resolve[OF assms(1) inv] i show ?thesis by simp
qed

theorem init_round_trip_witness:
  "fits 8 0 (eeprom_initial 512) \<and>
   (\<exists>s0 s1 s2. EEPROM_InitWearLeveledByte 8 0 0x40 (eeprom_initial 512) = Some (Inr (0x40, s0))
           \<and> EEPROM_FindCurrentAddress 8 0 s0 = Inr (0, s1)
           \<and> EEPROM_ReadWearLeveledByte 8 0 s0 = Inr (0x40, s2))"
proof -
  have h: "fits 8 0 (eeprom_initial 512)" by (simp add: fits_def eeprom_initial_def)
  have a: "(0::nat) < 8" and b: "(8::nat) < 256" by simp_all
  from init_round_trip[OF a b h] h show ?thesis by (rule conjI[rotated])
qed

section \<open>Update correctness\<close>

lemma last_Cons_take: "i \<le> length vs \<Longrightarrow> last (v # take i vs) = (v # vs) ! i"
proof (induction vs arbitrary: i v)
  case Nil
  then show ?case by simp
next
  case (Cons x xs)
  show ?case
  proof (cases i)
    case 0
    then show ?thesis by simp
  next
    case (Suc n)
    with Cons.prems have "n \<le> length xs" by simp
    from Cons.IH[OF this, of x] Suc show ?thesis by simp
  qed
qed

text \<open>
  Claim C1. After \<open>EEPROM_InitWearLeveledByte\<close> with \<open>v0\<close> and the first \<open>i\<close> writes of any
  sequence \<open>vs\<close> of bytes (\<open>i = 0\<close> is the state right after initialization), every call
  returns and \<open>EEPROM_ReadWearLeveledByte\<close> returns the value of step \<open>i\<close>, that is
  \<open>(v0 # vs) ! i\<close>. The sequence may be longer than 256 changing writes, so the counters
  wrap.
\<close>

theorem update_correctness:
  assumes "0 < N" and "N < 256" and "fits N param s" and "i \<le> length vs"
  shows "\<exists>s0 si s'. EEPROM_InitWearLeveledByte N param v0 s = Some (Inr (v0, s0))
           \<and> write_seq N param (take i vs) s0 = Inr si
           \<and> EEPROM_ReadWearLeveledByte N param si = Inr ((v0 # vs) ! i, s')"
proof -
  from initialized_init[OF assms(1-3)] obtain s0 where
    i: "EEPROM_InitWearLeveledByte N param v0 s = Some (Inr (v0, s0))"
    and inv: "initialized N param s0 0 v0"
    and l: "last_data_write (unat param) N (trace s0) = Some (unat param + 0)" by auto
  from initialized_write_seq[OF assms(1,2) inv l, of "take i vs"] obtain si k where
    w: "write_seq N param (take i vs) s0 = Inr si"
    and invi: "initialized N param si k (last (v0 # take i vs))" by blast
  note r = initialized_resolve(2)[OF assms(1) invi, unfolded last_Cons_take[OF assms(4)]]
  from i w r show ?thesis by blast
qed

theorem update_correctness_witness:
  "fits 8 0 (eeprom_initial 512) \<and>
   (\<exists>s0 si s'. EEPROM_InitWearLeveledByte 8 0 0x40 (eeprom_initial 512) = Some (Inr (0x40, s0))
           \<and> write_seq 8 0 [0x41, 0x41] s0 = Inr si
           \<and> EEPROM_ReadWearLeveledByte 8 0 si = Inr (0x41, s'))"
proof -
  have h: "fits 8 0 (eeprom_initial 512)" by (simp add: fits_def eeprom_initial_def)
  have a: "(0::nat) < 8" and b: "(8::nat) < 256" by simp_all
  have c: "2 \<le> length [0x41, 0x41, 0x42 :: byte]" by simp
  from update_correctness[OF a b h c, of "0x40"] h show ?thesis by simp
qed

section \<open>The resolver returns the slot written last\<close>

text \<open>
  Claim C2, as amended: for every wear-level factor \<open>0 < N < 256\<close> (the claim says
  \<open>N \<le> 256\<close>), on every state reached from \<open>EEPROM_InitWearLeveledByte\<close> by a sequence of
  writes, the address the resolver returns is the address of the most recent write into the
  data cells of the group, as the access trace records it. The sequence is arbitrary, so the
  statement covers counters that have wrapped past 255.
\<close>

theorem resolver_finds_last_written:
  assumes "0 < N" and "N < 256" and "fits N param s"
  shows "\<exists>s0 s1 a s2. EEPROM_InitWearLeveledByte N param v0 s = Some (Inr (v0, s0))
           \<and> write_seq N param vs s0 = Inr s1
           \<and> EEPROM_FindCurrentAddress N param s1 = Inr (a, s2)
           \<and> last_data_write (unat param) N (trace s1) = Some (unat a)"
proof -
  from initialized_init[OF assms(1-3)] obtain s0 where
    i: "EEPROM_InitWearLeveledByte N param v0 s = Some (Inr (v0, s0))"
    and inv: "initialized N param s0 0 v0"
    and l: "last_data_write (unat param) N (trace s0) = Some (unat param + 0)" by auto
  from initialized_write_seq[OF assms(1,2) inv l, of vs] obtain s1 k where
    w: "write_seq N param vs s0 = Inr s1"
    and inv1: "initialized N param s1 k (last (v0 # vs))"
    and l1: "last_data_write (unat param) N (trace s1) = Some (unat param + k)" by blast
  from inv1 have "k < N" and "fits N param s1" by (simp_all add: initialized_def single_run_def)
  then have "unat param + k < 65536" by (simp add: fits_def)
  from unat_addr_offset[OF this] have u: "unat (param + of_nat k) = unat param + k" .
  from initialized_resolve(1)[OF assms(1) inv1] i w l1 u show ?thesis by simp
qed

text \<open>
  The witness runs 300 writes after initialization, each with a new value: more than the 256
  values of a counter, so the counters have wrapped.
\<close>

theorem resolver_finds_last_written_witness:
  "fits 8 0 (eeprom_initial 512) \<and>
   (\<exists>s0 s1 a s2. EEPROM_InitWearLeveledByte 8 0 0x40 (eeprom_initial 512) = Some (Inr (0x40, s0))
           \<and> write_seq 8 0 (map of_nat [1..<301]) s0 = Inr s1
           \<and> EEPROM_FindCurrentAddress 8 0 s1 = Inr (a, s2)
           \<and> last_data_write (unat (0::addr)) 8 (trace s1) = Some (unat a))"
proof -
  have h: "fits 8 0 (eeprom_initial 512)" by (simp add: fits_def eeprom_initial_def)
  have a: "(0::nat) < 8" and b: "(8::nat) < 256" by simp_all
  from resolver_finds_last_written[OF a b h] h show ?thesis by (rule conjI[rotated])
qed

text \<open>
  A group of four slots whose counters are \<open>FE FF 00 FD\<close>: the run crosses the wrap from 255
  to 0, and the resolver returns slot 2, the slot holding counter \<open>00\<close>.
\<close>

lemma resolver_wraparound_example:
  "EEPROM_FindCurrentAddress 4 0 \<lparr>eeprom = [0x10, 0x11, 0x12, 0x0F, 0xFE, 0xFF, 0x00, 0xFD], trace = []\<rparr> =
     Inr (2, \<lparr>eeprom = [0x10, 0x11, 0x12, 0x0F, 0xFE, 0xFF, 0x00, 0xFD],
              trace = [Rd 4, Rd 5, Rd 5, Rd 6, Rd 6, Rd 7]\<rparr>)"
  by code_simp

text \<open>
  At \<open>N = 256\<close> the claim fails. The loop counter of \<open>EEPROM_InitWearLeveledByte\<close> is a
  \<open>uint8_t\<close>, so \<open>i < 256\<close> never fails and initialization does not return: no state is
  reached. And on the cells that initialization is to leave for \<open>N = 256\<close> (counter 0 set
  to \<open>N - 1 = 255\<close>, counter \<open>i\<close> to \<open>i - 1\<close>, the value in data cell 0) the 256 counters are
  ascending modulo 256 all the way round, so the resolver returns slot 255, not slot 0, the
  only data cell written.
\<close>

lemma init_loop_no_result:
  assumes r: "init_loop N param i s = Some y"
  shows "\<not> (256 \<le> N \<and> unat param + N + 255 < length (eeprom s))"
proof (rule init_loop.raw_induct[where
    P = "\<lambda>N param i s y. \<not> (256 \<le> N \<and> unat param + N + 255 < length (eeprom s))", OF _ r])
  fix f :: "nat \<Rightarrow> addr \<Rightarrow> byte \<Rightarrow> medium \<Rightarrow> (error + medium) option"
    and N param i s y
  assume IH: "\<And>N param i s y. f N param i s = Some y \<Longrightarrow>
                \<not> (256 \<le> N \<and> unat param + N + 255 < length (eeprom s))"
    and body: "(if unat i < N
                then case EEPROM_Write (unat i + unat param + N) (i - 1) s of
                       Inl e \<Rightarrow> Some (Inl e)
                     | Inr s' \<Rightarrow> f N param (i + 1) s'
                else Some (Inr s)) = Some y"
  show "\<not> (256 \<le> N \<and> unat param + N + 255 < length (eeprom s))"
  proof
    assume a: "256 \<le> N \<and> unat param + N + 255 < length (eeprom s)"
    have "unat i < 256" using unsigned_less[of i, where 'a=nat] by simp
    with a have c: "unat i < N" and inb: "unat i + unat param + N < length (eeprom s)"
      by simp_all
    let ?s' = "s\<lparr>eeprom := (eeprom s)[unat i + unat param + N := i - 1],
                  trace := trace s @ [Wr (unat i + unat param + N) (i - 1)]\<rparr>"
    from body c inb have "f N param (i + 1) ?s' = Some y"
      by (simp add: EEPROM_Write_def)
    from IH[OF this] a show False by simp
  qed
qed

lemma init_loop_diverges:
  "256 \<le> N \<Longrightarrow> unat param + N + 255 < length (eeprom s) \<Longrightarrow> init_loop N param i s = None"
  using init_loop_no_result[of N param i s] by (cases "init_loop N param i s") auto

lemma InitWearLeveledByte_diverges:
  assumes "256 \<le> N" and "unat param + N + 255 < length (eeprom s)"
  shows "EEPROM_InitWearLeveledByte N param v s = None"
proof -
  let ?s1 = "s\<lparr>eeprom := (eeprom s)[unat param + N := of_nat N - 1],
                trace := trace s @ [Wr (unat param + N) (of_nat N - 1)]\<rparr>"
  have w: "EEPROM_Write (unat param + N) (of_nat N - 1) s = Inr ?s1"
    using assms(2) by (simp add: EEPROM_Write_def)
  have "init_loop N param 1 ?s1 = None"
    using assms by (intro init_loop_diverges) simp_all
  then show ?thesis unfolding EEPROM_InitWearLeveledByte_def w by simp
qed

lemma single_run_full_ring:
  "single_run 256 (gen 256 0 \<lparr>eeprom = init_cells 256 0 v (replicate 512 0xFF), trace = t\<rparr>) 255"
  unfolding single_run_def
proof (intro conjI allI impI)
  fix j :: nat assume j: "Suc j < 256 \<and> j \<noteq> 255"
  let ?g = "gen 256 0 \<lparr>eeprom = init_cells 256 0 v (replicate 512 0xFF), trace = t\<rparr>"
  have g0: "?g 0 = 255" by (simp add: gen_def init_cells_nth)
  have gj: "\<And>i. 0 < i \<Longrightarrow> i < 256 \<Longrightarrow> ?g i = of_nat i - 1"
    by (simp add: gen_def init_cells_nth)
  show "?g (Suc j) = ?g j + 1"
  proof (cases j)
    case 0
    then show ?thesis using g0 gj[of 1] by simp
  next
    case (Suc n)
    then show ?thesis using j gj[of j] gj[of "Suc j"] by simp
  qed
qed simp_all

theorem resolver_factor_256_counterexample:
  "EEPROM_InitWearLeveledByte 256 0 0x40 (eeprom_initial 512) = None \<and>
   last_data_write 0 256 (init_writes 256 0 0x40) = Some 0 \<and>
   map_sum id fst (EEPROM_FindCurrentAddress 256 0
      \<lparr>eeprom = init_cells 256 0 0x40 (replicate 512 0xFF), trace = init_writes 256 0 0x40\<rparr>)
     = Inr 255"
proof -
  let ?s = "\<lparr>eeprom = init_cells 256 0 0x40 (replicate 512 0xFF), trace = init_writes 256 0 0x40\<rparr>"
  have a: "EEPROM_InitWearLeveledByte 256 0 0x40 (eeprom_initial 512) = None"
    by (rule InitWearLeveledByte_diverges) (simp_all add: eeprom_initial_def)
  have b: "last_data_write 0 256 (init_writes 256 0 0x40) = Some 0"
    by (rule last_data_write_init) simp
  have f: "fits 256 0 ?s" by (simp add: fits_def init_cells_length)
  have "active 256 0 ?s = 255"
    unfolding active_def by (rule single_run_scan) (rule single_run_full_ring)
  with FindCurrentAddress_fits[OF f] have c: "map_sum id fst (EEPROM_FindCurrentAddress 256 0 ?s) = Inr 255"
    by simp
  from a b c show ?thesis by blast
qed

section \<open>The invariant is established and preserved\<close>

text \<open>
  Claim C3. For \<open>0 < N < 256\<close> and a group that fits the medium:
  \<open>EEPROM_InitWearLeveledByte\<close> returns and leaves counters that form a single ascending run
  with boundary index 0; and if the counters form a single ascending run with boundary \<open>k\<close>,
  then \<open>EEPROM_WriteWearLeveledByte\<close> returns and leaves counters that form a single
  ascending run, with boundary \<open>k\<close> when the value is the stored one and the next slot
  (\<open>k + 1\<close>, or 0 after the last) otherwise. In both cases there is exactly one boundary
  index.
\<close>

theorem single_run_invariant:
  assumes "0 < N" and "N < 256" and "fits N param s"
  shows "(\<exists>s0. EEPROM_InitWearLeveledByte N param v s = Some (Inr (v, s0))
              \<and> single_run N (gen N param s0) 0
              \<and> (\<exists>!k. single_run N (gen N param s0) k))
       \<and> (single_run N (gen N param s) k \<longrightarrow>
            (\<exists>s'. EEPROM_WriteWearLeveledByte N param d s = Inr s'
                \<and> single_run N (gen N param s') (if d = dat param s k then k else next_slot N k)
                \<and> (\<exists>!k'. single_run N (gen N param s') k')))"
proof (intro conjI impI)
  from initialized_init[OF assms] obtain s0 where
    i: "EEPROM_InitWearLeveledByte N param v s = Some (Inr (v, s0))"
    and inv: "initialized N param s0 0 v" by blast
  from inv have r: "single_run N (gen N param s0) 0" by (simp add: initialized_def)
  then have "\<exists>!k. single_run N (gen N param s0) k" by (blast intro: single_run_unique)
  with i r show "\<exists>s0. EEPROM_InitWearLeveledByte N param v s = Some (Inr (v, s0))
              \<and> single_run N (gen N param s0) 0
              \<and> (\<exists>!k. single_run N (gen N param s0) k)" by blast
next
  assume sr: "single_run N (gen N param s) k"
  with assms(3) have inv: "initialized N param s k (dat param s k)" by (simp add: initialized_def)
  from initialized_write[OF assms(1,2) inv, of d] obtain s' where
    w: "EEPROM_WriteWearLeveledByte N param d s = Inr s'"
    and inv': "initialized N param s' (if d = dat param s k then k else next_slot N k) d" by blast
  from inv' have r: "single_run N (gen N param s') (if d = dat param s k then k else next_slot N k)"
    by (simp add: initialized_def)
  then have "\<exists>!k'. single_run N (gen N param s') k'" by (blast intro: single_run_unique)
  with w r show "\<exists>s'. EEPROM_WriteWearLeveledByte N param d s = Inr s'
                \<and> single_run N (gen N param s') (if d = dat param s k then k else next_slot N k)
                \<and> (\<exists>!k'. single_run N (gen N param s') k')" by blast
qed

lemma single_run_example:
  "single_run 3 (gen 3 0 \<lparr>eeprom = [0x40, 0xFF, 0xFF, 2, 0, 1], trace = []\<rparr>) 0"
  unfolding single_run_def gen_def
proof (intro conjI allI impI)
  fix j :: nat assume "Suc j < 3 \<and> j \<noteq> 0"
  then have "j = 1" by linarith
  then show "eeprom \<lparr>eeprom = [0x40, 0xFF, 0xFF, 2, 0, 1], trace = []\<rparr> ! (unat (0::addr) + 3 + Suc j) =
             eeprom \<lparr>eeprom = [0x40, 0xFF, 0xFF, 2, 0, 1], trace = []\<rparr> ! (unat (0::addr) + 3 + j) + 1"
    by simp
qed simp_all

theorem single_run_invariant_witness:
  "fits 3 0 \<lparr>eeprom = [0x40, 0xFF, 0xFF, 2, 0, 1], trace = []\<rparr> \<and>
   single_run 3 (gen 3 0 \<lparr>eeprom = [0x40, 0xFF, 0xFF, 2, 0, 1], trace = []\<rparr>) 0 \<and>
   (\<exists>s0. EEPROM_InitWearLeveledByte 3 0 0x40 \<lparr>eeprom = [0x40, 0xFF, 0xFF, 2, 0, 1], trace = []\<rparr>
            = Some (Inr (0x40, s0))
       \<and> single_run 3 (gen 3 0 s0) 0) \<and>
   (\<exists>s'. EEPROM_WriteWearLeveledByte 3 0 0x41 \<lparr>eeprom = [0x40, 0xFF, 0xFF, 2, 0, 1], trace = []\<rparr> = Inr s'
       \<and> single_run 3 (gen 3 0 s') 1)"
proof -
  let ?s = "\<lparr>eeprom = [0x40, 0xFF, 0xFF, 2, 0, 1], trace = []\<rparr>"
  have h: "fits 3 0 ?s" by (simp add: fits_def)
  have a: "(0::nat) < 3" and b: "(3::nat) < 256" by simp_all
  note sr = single_run_example
  note t = single_run_invariant[OF a b h, of "0x40" 0 "0x41"]
  from t have 1: "\<exists>s0. EEPROM_InitWearLeveledByte 3 0 0x40 ?s = Some (Inr (0x40, s0))
       \<and> single_run 3 (gen 3 0 s0) 0" by blast
  from t sr have "\<exists>s'. EEPROM_WriteWearLeveledByte 3 0 0x41 ?s = Inr s'
       \<and> single_run 3 (gen 3 0 s') (if (0x41::byte) = dat 0 ?s 0 then 0 else next_slot 3 0)" by blast
  then have 2: "\<exists>s'. EEPROM_WriteWearLeveledByte 3 0 0x41 ?s = Inr s'
       \<and> single_run 3 (gen 3 0 s') 1" by (simp add: dat_def next_slot_def)
  from h sr 1 2 show ?thesis by blast
qed

section \<open>Ring advancement\<close>

lemma mod_window_distinct:
  assumes "i < j" and "j < i + (N::nat)"
  shows "(k + i) mod N \<noteq> (k + j) mod N"
proof
  assume e: "(k + i) mod N = (k + j) mod N"
  have "k + i \<le> k + j" using assms(1) by simp
  from mod_eq_dvd_iff_nat[OF this, of N] e have "N dvd (k + j) - (k + i)" by simp
  then have d: "N dvd j - i" by simp
  have "0 < j - i" and "j - i < N" using assms by simp_all
  with d show False using nat_dvd_not_less by blast
qed

text \<open>
  Claim C7. From an initialized group with active index \<open>k\<close> and current value \<open>cur\<close>
  (\<open>0 < N < 256\<close>), let \<open>vs\<close> be any sequence of writes each of which changes the value
  (no two adjacent values of \<open>cur # vs\<close> are equal); its length is arbitrary, in particular
  greater than \<open>N\<close>. Then after the first \<open>i\<close> writes the resolver returns slot
  \<open>(k + i) mod N\<close>: each changing write makes the next slot, modulo \<open>N\<close>, the active one.
  And the slots resolved after two different numbers of writes less than \<open>N\<close> apart are
  different, so within any \<open>N\<close> consecutive changing writes no slot is active twice.
\<close>

theorem ring_advancement:
  assumes "0 < N" and "N < 256" and "initialized N param s k cur" and "distinct_adj (cur # vs)"
  shows "(\<forall>i\<le>length vs. \<exists>si sa. write_seq N param (take i vs) s = Inr si
              \<and> EEPROM_FindCurrentAddress N param si = Inr (param + of_nat ((k + i) mod N), sa))
       \<and> (\<forall>i j. i < j \<and> j < i + N \<longrightarrow>
              param + of_nat ((k + i) mod N) \<noteq> param + of_nat ((k + j) mod N))"
proof (intro conjI allI impI)
  fix i assume i: "i \<le> length vs"
  have "distinct_adj (cur # take i vs)"
    using assms(4) by (metis append_take_drop_id distinct_adj_append_iff append_Cons)
  note c = initialized_write_seq_changing[OF assms(1-3) this]
  have "length (take i vs) = i" using i by simp
  with c obtain si where
    w: "write_seq N param (take i vs) s = Inr si"
    and inv: "initialized N param si ((k + i) mod N) (last (cur # take i vs))"
    by (auto simp only:)
  from initialized_resolve(1)[OF assms(1) inv] w
  show "\<exists>si sa. write_seq N param (take i vs) s = Inr si
              \<and> EEPROM_FindCurrentAddress N param si = Inr (param + of_nat ((k + i) mod N), sa)"
    by blast
next
  fix i j assume ij: "i < j \<and> j < i + N"
  then have ne: "(k + i) mod N \<noteq> (k + j) mod N" by (intro mod_window_distinct) simp_all
  have b: "(k + i) mod N < N" "(k + j) mod N < N" using assms(1) by simp_all
  show "param + of_nat ((k + i) mod N) \<noteq> param + of_nat ((k + j) mod N)"
  proof (cases "(k + i) mod N \<le> (k + j) mod N")
    case True
    have "(k + j) mod N < (k + i) mod N + 65536" using b assms(2) by linarith
    from addr_offset_inj[OF True this, of param] ne show ?thesis by simp
  next
    case False
    then have le: "(k + j) mod N \<le> (k + i) mod N" by simp
    have "(k + i) mod N < (k + j) mod N + 65536" using b assms(2) by linarith
    from addr_offset_inj[OF le this, of param] ne show ?thesis by auto
  qed
qed

lemma initialized_example:
  "initialized 3 0 \<lparr>eeprom = [0x40, 0xFF, 0xFF, 2, 0, 1], trace = []\<rparr> 0 0x40"
  unfolding initialized_def using single_run_example by (simp add: fits_def dat_def)

theorem ring_advancement_witness:
  "initialized 3 0 \<lparr>eeprom = [0x40, 0xFF, 0xFF, 2, 0, 1], trace = []\<rparr> 0 0x40 \<and>
   distinct_adj [0x40, 0x41, 0x42, 0x43, 0x44 :: byte] \<and>
   (\<exists>si sa. write_seq 3 0 [0x41, 0x42, 0x43, 0x44]
                \<lparr>eeprom = [0x40, 0xFF, 0xFF, 2, 0, 1], trace = []\<rparr> = Inr si
            \<and> EEPROM_FindCurrentAddress 3 0 si = Inr (1, sa)) \<and>
   (\<exists>si sa. write_seq 3 0 [0x41, 0x42]
                \<lparr>eeprom = [0x40, 0xFF, 0xFF, 2, 0, 1], trace = []\<rparr> = Inr si
            \<and> EEPROM_FindCurrentAddress 3 0 si = Inr (2, sa))"
proof -
  let ?s = "\<lparr>eeprom = [0x40, 0xFF, 0xFF, 2, 0, 1], trace = []\<rparr>"
  have a: "(0::nat) < 3" and b: "(3::nat) < 256" by simp_all
  have d: "distinct_adj (0x40 # [0x41, 0x42, 0x43, 0x44 :: byte])" by simp
  note t = ring_advancement[OF a b initialized_example d, THEN conjunct1]
  from t[rule_format, of 4] have 1: "\<exists>si sa. write_seq 3 0 [0x41, 0x42, 0x43, 0x44] ?s = Inr si
            \<and> EEPROM_FindCurrentAddress 3 0 si = Inr (1, sa)" by simp
  from t[rule_format, of 2] have 2: "\<exists>si sa. write_seq 3 0 [0x41, 0x42] ?s = Inr si
            \<and> EEPROM_FindCurrentAddress 3 0 si = Inr (2, sa)" by simp
  from initialized_example d 1 2 show ?thesis by simp
qed

section \<open>The scenario of the demonstration program\<close>

text \<open>
  Claim C8. With the repository's configuration (wear-level factor 8, a simulated medium of
  512 cells, all \<open>0xFF\<close>): initializing the byte at offset 0 with \<open>0x40\<close> leaves the first 16
  cells \<open>40 FF FF FF FF FF FF FF 07 00 01 02 03 04 05 06\<close>; writing \<open>0x41\<close> leaves
  \<open>40 41 FF FF FF FF FF FF 07 08 01 02 03 04 05 06\<close>; writing \<open>0x41\<close> again leaves every cell
  of the medium as it was.
\<close>

theorem scenario_factor_8:
  "\<exists>s1 s2 s3.
      EEPROM_InitWearLeveledByte EEPROM_WEAR_LEVEL_FACTOR 0 0x40
        (eeprom_initial EEPROM_SIMULATED_SIZE) = Some (Inr (0x40, s1))
    \<and> take 16 (eeprom s1) =
        [0x40, 0xFF, 0xFF, 0xFF, 0xFF, 0xFF, 0xFF, 0xFF, 0x07, 0x00, 0x01, 0x02, 0x03, 0x04, 0x05, 0x06]
    \<and> EEPROM_WriteWearLeveledByte EEPROM_WEAR_LEVEL_FACTOR 0 0x41 s1 = Inr s2
    \<and> take 16 (eeprom s2) =
        [0x40, 0x41, 0xFF, 0xFF, 0xFF, 0xFF, 0xFF, 0xFF, 0x07, 0x08, 0x01, 0x02, 0x03, 0x04, 0x05, 0x06]
    \<and> EEPROM_WriteWearLeveledByte EEPROM_WEAR_LEVEL_FACTOR 0 0x41 s2 = Inr s3
    \<and> eeprom s3 = eeprom s2"
proof -
  let ?t1 = "[Wr 8 7, Wr 9 0, Wr 10 1, Wr 11 2, Wr 12 3, Wr 13 4, Wr 14 5, Wr 15 6, Wr 0 0x40]"
  let ?t2 = "?t1 @ [Rd 8, Rd 9, Rd 0, Rd 8, Wr 1 0x41, Wr 9 8]"
  let ?t3 = "?t2 @ [Rd 8, Rd 9, Rd 9, Rd 10, Rd 1]"
  let ?c1 = "[0x40, 0xFF, 0xFF, 0xFF, 0xFF, 0xFF, 0xFF, 0xFF, 0x07, 0x00, 0x01, 0x02, 0x03, 0x04,
              0x05, 0x06] @ replicate 496 (0xFF::byte)"
  let ?c2 = "[0x40, 0x41, 0xFF, 0xFF, 0xFF, 0xFF, 0xFF, 0xFF, 0x07, 0x08, 0x01, 0x02, 0x03, 0x04,
              0x05, 0x06] @ replicate 496 (0xFF::byte)"
  let ?s1 = "\<lparr>eeprom = ?c1, trace = ?t1\<rparr>"
  let ?s2 = "\<lparr>eeprom = ?c2, trace = ?t2\<rparr>"
  let ?s3 = "\<lparr>eeprom = ?c2, trace = ?t3\<rparr>"
  have 1: "EEPROM_InitWearLeveledByte EEPROM_WEAR_LEVEL_FACTOR 0 0x40
        (eeprom_initial EEPROM_SIMULATED_SIZE) = Some (Inr (0x40, ?s1))"
    by code_simp
  have 2: "EEPROM_WriteWearLeveledByte EEPROM_WEAR_LEVEL_FACTOR 0 0x41 ?s1 = Inr ?s2"
    by code_simp
  have 3: "EEPROM_WriteWearLeveledByte EEPROM_WEAR_LEVEL_FACTOR 0 0x41 ?s2 = Inr ?s3"
    by code_simp
  have 4: "take 16 (eeprom ?s1) =
        [0x40, 0xFF, 0xFF, 0xFF, 0xFF, 0xFF, 0xFF, 0xFF, 0x07, 0x00, 0x01, 0x02, 0x03, 0x04, 0x05, 0x06]"
    by simp
  have 5: "take 16 (eeprom ?s2) =
        [0x40, 0x41, 0xFF, 0xFF, 0xFF, 0xFF, 0xFF, 0xFF, 0x07, 0x08, 0x01, 0x02, 0x03, 0x04, 0x05, 0x06]"
    by simp
  have 6: "eeprom ?s3 = eeprom ?s2" by simp
  from 1 4 2 5 3 6 show ?thesis by blast
qed

section \<open>The data cell is written before its counter\<close>

lemma next_slot_neq: "2 \<le> N \<Longrightarrow> k < N \<Longrightarrow> next_slot N k \<noteq> k"
  by (auto simp: next_slot_def)

text \<open>
  Claim C10, as amended (the condition \<open>2 \<le> N\<close> on its last part is the amendment). On a
  group that fits the medium (\<open>N \<ge> 1\<close>), a write of a value \<open>d\<close> other than the stored one
  \<open>old\<close> performs, after its reads, exactly two writes in this order: \<open>d\<close> into the data cell
  \<open>a\<close> of the next slot (the slot after the resolved one, or slot 0 after the last), then the
  counter \<open>c\<close> into cell \<open>a + N\<close>. \<open>mid\<close> is the medium between the two writes: the counter
  write takes \<open>mid\<close> to the final state. On \<open>mid\<close> the resolver returns the same address \<open>A\<close>
  as before the call, and with at least two slots \<open>EEPROM_ReadWearLeveledByte\<close> returns the
  previous value \<open>old\<close>.
\<close>

theorem data_write_before_counter:
  assumes "0 < N" and "fits N param s"
    and "EEPROM_ReadWearLeveledByte N param s = Inr (old, s0)" and "d \<noteq> old"
  shows "\<exists>A q rds a c mid s' r1.
      EEPROM_FindCurrentAddress N param s = Inr (A, q)
    \<and> a = (if unat A + 1 = unat param + N then unat param else unat A + 1)
    \<and> (\<forall>x\<in>set rds. \<exists>b. x = Rd b)
    \<and> mid = s\<lparr>eeprom := (eeprom s)[a := d], trace := trace s @ rds @ [Wr a d]\<rparr>
    \<and> EEPROM_Write (a + N) c mid = Inr s'
    \<and> EEPROM_WriteWearLeveledByte N param d s = Inr s'
    \<and> trace s' = trace s @ rds @ [Wr a d, Wr (a + N) c]
    \<and> EEPROM_FindCurrentAddress N param mid = Inr (A, r1)
    \<and> (2 \<le> N \<longrightarrow> (\<exists>r2. EEPROM_ReadWearLeveledByte N param mid = Inr (old, r2)))"
proof -
  note N0 = assms(1)
  define p where "p = unat param"
  define k where "k = active N param s"
  define k' where "k' = next_slot N k"
  define a where "a = p + k'"
  define c where "c = gen N param s k + 1"
  define rds where "rds = resolver_reads N param s @ [Rd (p + k), Rd (p + k + N)]"
  define mid where "mid = s\<lparr>eeprom := (eeprom s)[a := d], trace := trace s @ rds @ [Wr a d]\<rparr>"
  define s' where "s' = s\<lparr>eeprom := (eeprom s)[a := d, a + N := c],
                        trace := trace s @ rds @ [Wr a d, Wr (a + N) c]\<rparr>"
  have kN: "k < N" unfolding k_def using N0 by (rule active_less)
  have k'N: "k' < N" unfolding k'_def using kN by (rule next_slot_less)
  have len: "p + 2 * N \<le> length (eeprom s)" and top: "p + 2 * N \<le> 65536"
    using assms(2) by (simp_all add: fits_def p_def)
  have old: "old = dat param s k"
    using assms(3) ReadWearLeveledByte_fits[OF assms(2) N0] by (simp add: k_def)
  have find: "EEPROM_FindCurrentAddress N param s =
      Inr (param + of_nat k, s\<lparr>trace := trace s @ resolver_reads N param s\<rparr>)"
    unfolding k_def by (rule FindCurrentAddress_fits[OF assms(2) N0])
  have "unat param + k < 65536" using top kN by (simp add: p_def)
  from unat_addr_offset[OF this] have uA: "unat (param + of_nat k) = p + k" unfolding p_def .
  have a_eq: "a = (if unat (param + of_nat k) + 1 = unat param + N then unat param
                    else unat (param + of_nat k) + 1)"
    unfolding uA a_def k'_def next_slot_def p_def by simp
  have reads: "\<forall>x\<in>set rds. \<exists>b. x = Rd b"
    unfolding rds_def using resolver_reads_are_reads[OF N0, of param s] by auto
  have w: "EEPROM_WriteWearLeveledByte N param d s = Inr s'"
    using WriteWearLeveledByte_fits[OF assms(2) N0, of d] assms(4) old
    by (simp add: s'_def rds_def a_def k'_def k_def c_def p_def)
  have cw: "EEPROM_Write (a + N) c mid = Inr s'"
    using len k'N by (simp add: EEPROM_Write_def mid_def s'_def a_def)
  have tr: "trace s' = trace s @ rds @ [Wr a d, Wr (a + N) c]" by (simp add: s'_def)
  have fm: "fits N param mid" using assms(2) by (simp add: fits_def mid_def)
  have gm: "gen N param mid = gen N param s"
  proof
    fix j show "gen N param mid j = gen N param s j"
      using k'N by (simp add: gen_def mid_def a_def p_def)
  qed
  have am: "active N param mid = k" unfolding active_def gm k_def active_def ..
  have f2: "EEPROM_FindCurrentAddress N param mid =
      Inr (param + of_nat k, mid\<lparr>trace := trace mid @ resolver_reads N param mid\<rparr>)"
    using FindCurrentAddress_fits[OF fm N0] by (simp add: am)
  have r2: "2 \<le> N \<longrightarrow> (\<exists>r2. EEPROM_ReadWearLeveledByte N param mid = Inr (old, r2))"
  proof
    assume two: "2 \<le> N"
    have ne: "k' \<noteq> k" unfolding k'_def using two kN by (rule next_slot_neq)
    have dm: "dat param mid k = dat param s k"
      using ne by (simp add: dat_def mid_def a_def p_def)
    show "\<exists>r2. EEPROM_ReadWearLeveledByte N param mid = Inr (old, r2)"
      using ReadWearLeveledByte_fits[OF fm N0] by (simp add: am dm old)
  qed
  from find a_eq reads mid_def cw w tr f2 r2 show ?thesis by blast
qed

theorem data_write_before_counter_witness:
  "fits 8 0 \<lparr>eeprom = [0x40, 0xFF, 0xFF, 0xFF, 0xFF, 0xFF, 0xFF, 0xFF, 7, 0, 1, 2, 3, 4, 5, 6],
             trace = []\<rparr> \<and>
   EEPROM_ReadWearLeveledByte 8 0
      \<lparr>eeprom = [0x40, 0xFF, 0xFF, 0xFF, 0xFF, 0xFF, 0xFF, 0xFF, 7, 0, 1, 2, 3, 4, 5, 6],
       trace = []\<rparr> =
    Inr (0x40, \<lparr>eeprom = [0x40, 0xFF, 0xFF, 0xFF, 0xFF, 0xFF, 0xFF, 0xFF, 7, 0, 1, 2, 3, 4, 5, 6],
               trace = [Rd 8, Rd 9, Rd 0]\<rparr>) \<and>
   (\<exists>rds c mid s' r2.
      mid = \<lparr>eeprom = [0x40, 0x41, 0xFF, 0xFF, 0xFF, 0xFF, 0xFF, 0xFF, 7, 0, 1, 2, 3, 4, 5, 6],
             trace = rds @ [Wr 1 0x41]\<rparr>
    \<and> EEPROM_Write 9 c mid = Inr s'
    \<and> EEPROM_WriteWearLeveledByte 8 0 0x41
         \<lparr>eeprom = [0x40, 0xFF, 0xFF, 0xFF, 0xFF, 0xFF, 0xFF, 0xFF, 7, 0, 1, 2, 3, 4, 5, 6],
          trace = []\<rparr> = Inr s'
    \<and> EEPROM_ReadWearLeveledByte 8 0 mid = Inr (0x40, r2))"
proof -
  let ?s = "\<lparr>eeprom = [0x40, 0xFF, 0xFF, 0xFF, 0xFF, 0xFF, 0xFF, 0xFF, 7, 0, 1, 2, 3, 4, 5, 6 :: byte],
             trace = []\<rparr>"
  let ?sr = "\<lparr>eeprom = [0x40, 0xFF, 0xFF, 0xFF, 0xFF, 0xFF, 0xFF, 0xFF, 7, 0, 1, 2, 3, 4, 5, 6 :: byte],
              trace = [Rd 8, Rd 9, Rd 0]\<rparr>"
  have h: "fits 8 0 ?s" by (simp add: fits_def)
  have r: "EEPROM_ReadWearLeveledByte 8 0 ?s = Inr (0x40, ?sr)" by code_simp
  have n: "(0::nat) < 8" and d: "(0x41::byte) \<noteq> 0x40" by simp_all
  have f: "EEPROM_FindCurrentAddress 8 0 ?s = Inr (0, \<lparr>eeprom = eeprom ?s, trace = [Rd 8, Rd 9]\<rparr>)"
    by code_simp
  from data_write_before_counter[OF n h r d] obtain A q rds a c mid s' r1 where
    1: "EEPROM_FindCurrentAddress 8 0 ?s = Inr (A, q)"
    and 2: "a = (if unat A + 1 = unat (0::addr) + 8 then unat (0::addr) else unat A + 1)"
    and 3: "mid = ?s\<lparr>eeprom := (eeprom ?s)[a := 0x41], trace := trace ?s @ rds @ [Wr a 0x41]\<rparr>"
    and 4: "EEPROM_Write (a + 8) c mid = Inr s'"
    and 5: "EEPROM_WriteWearLeveledByte 8 0 0x41 ?s = Inr s'"
    and 7: "(2::nat) \<le> 8 \<longrightarrow> (\<exists>r2. EEPROM_ReadWearLeveledByte 8 0 mid = Inr (0x40, r2))"
    by blast
  from 7 obtain r2 where 6: "EEPROM_ReadWearLeveledByte 8 0 mid = Inr (0x40, r2)" by auto
  from 1 f have "A = 0" by simp
  with 2 have a: "a = 1" by simp
  from 3 a have m3: "mid = \<lparr>eeprom = [0x40, 0x41, 0xFF, 0xFF, 0xFF, 0xFF, 0xFF, 0xFF, 7, 0, 1, 2, 3, 4, 5, 6],
             trace = rds @ [Wr 1 0x41]\<rparr>" by simp
  from 4 a have m4: "EEPROM_Write 9 c mid = Inr s'" by simp
  from m3 m4 5 6 have "\<exists>rds c mid s' r2.
      mid = \<lparr>eeprom = [0x40, 0x41, 0xFF, 0xFF, 0xFF, 0xFF, 0xFF, 0xFF, 7, 0, 1, 2, 3, 4, 5, 6],
             trace = rds @ [Wr 1 0x41]\<rparr>
    \<and> EEPROM_Write 9 c mid = Inr s'
    \<and> EEPROM_WriteWearLeveledByte 8 0 0x41 ?s = Inr s'
    \<and> EEPROM_ReadWearLeveledByte 8 0 mid = Inr (0x40, r2)" by blast
  with h r show ?thesis by blast
qed

text \<open>
  With a single slot (\<open>N = 1\<close>) the last part of the claim fails: the next slot is the
  active slot itself, so after the data write alone the read already returns the new value
  \<open>0x41\<close>, not the previous \<open>0x40\<close>.
\<close>

theorem single_slot_data_write_counterexample:
  "EEPROM_InitWearLeveledByte 1 0 0x40 (eeprom_initial 2) =
     Some (Inr (0x40, \<lparr>eeprom = [0x40, 0], trace = [Wr 1 0, Wr 0 0x40]\<rparr>)) \<and>
   EEPROM_ReadWearLeveledByte 1 0 \<lparr>eeprom = [0x40, 0], trace = [Wr 1 0, Wr 0 0x40]\<rparr> =
     Inr (0x40, \<lparr>eeprom = [0x40, 0], trace = [Wr 1 0, Wr 0 0x40, Rd 1, Rd 0]\<rparr>) \<and>
   EEPROM_WriteWearLeveledByte 1 0 0x41 \<lparr>eeprom = [0x40, 0], trace = [Wr 1 0, Wr 0 0x40]\<rparr> =
     Inr \<lparr>eeprom = [0x41, 1],
          trace = [Wr 1 0, Wr 0 0x40, Rd 1, Rd 0, Rd 1, Wr 0 0x41, Wr 1 1]\<rparr> \<and>
   EEPROM_ReadWearLeveledByte 1 0
       \<lparr>eeprom = [0x41, 0], trace = [Wr 1 0, Wr 0 0x40, Rd 1, Rd 0, Rd 1, Wr 0 0x41]\<rparr> =
     Inr (0x41, \<lparr>eeprom = [0x41, 0],
                trace = [Wr 1 0, Wr 0 0x40, Rd 1, Rd 0, Rd 1, Wr 0 0x41, Rd 1, Rd 0]\<rparr>)"
  by code_simp

section \<open>Block independence\<close>

lemma group_offset_bound:
  fixes i len :: addr
  assumes "i < len"
  shows "unat i * (2 * N) + 2 * N \<le> unat len * (2 * N)"
proof -
  have "Suc (unat i) \<le> unat len" using assms by (simp add: word_less_nat_alt)
  then have "Suc (unat i) * (2 * N) \<le> unat len * (2 * N)" by (rule mult_le_mono1)
  then show ?thesis by (simp only: mult_Suc add.commute)
qed

lemma group_offset_word:
  fixes i :: addr
  shows "i * of_nat (N + N) = of_nat (unat i * (2 * N))"
proof -
  have "(of_nat (unat i * (N + N)) :: addr) = of_nat (unat i) * of_nat (N + N)"
    by (simp only: of_nat_mult)
  also have "(of_nat (unat i) :: addr) = i" by simp
  finally show ?thesis unfolding mult_2 by (rule sym)
qed

lemma block_group_addr:
  fixes param i len :: addr
  assumes "unat param + unat len * (2 * N) \<le> 65536" and "i < len" and "0 < N"
  shows "unat (param + i * of_nat (N + N)) = unat param + unat i * (2 * N)"
proof -
  have b: "unat param + unat i * (2 * N) < 65536"
    using group_offset_bound[OF assms(2), of N] assms(1,3) by linarith
  show ?thesis unfolding group_offset_word by (rule unat_addr_offset[OF b])
qed

lemma block_group_fits:
  assumes "block_fits N param len s" and "i < len" and "0 < N"
  shows "fits N (param + i * of_nat (N + N)) s"
proof -
  from assms(1) have l: "unat param + unat len * (2 * N) \<le> length (eeprom s)"
    and t: "unat param + unat len * (2 * N) \<le> 65536" by (simp_all add: block_fits_def)
  note b = group_offset_bound[OF assms(2), of N]
  show ?thesis
    unfolding fits_def block_group_addr[OF t assms(2,3)] using l t b by linarith
qed

lemma stored_local:
  assumes "0 < N"
    and "\<forall>a. unat param \<le> a \<and> a < unat param + 2 * N \<longrightarrow> eeprom s2 ! a = eeprom s ! a"
  shows "stored N param s2 = stored N param s"
proof -
  have g: "\<forall>j<N. gen N param s2 j = gen N param s j" using assms(2) by (simp add: gen_def)
  have a: "active N param s2 = active N param s"
    unfolding active_def by (rule scan_cong[OF g])
  have "active N param s < N" using assms(1) by (rule active_less)
  then show ?thesis using assms(2) by (simp add: stored_def a dat_def)
qed

lemma write_byte_frame:
  assumes "fits N param s" and "0 < N"
  shows "\<exists>s' tr. EEPROM_WriteWearLeveledByte N param d s = Inr s'
           \<and> length (eeprom s') = length (eeprom s)
           \<and> (\<forall>a. \<not> (unat param \<le> a \<and> a < unat param + 2 * N) \<longrightarrow> eeprom s' ! a = eeprom s ! a)
           \<and> trace s' = trace s @ tr
           \<and> (\<forall>a v. Wr a v \<in> set tr \<longrightarrow> unat param \<le> a \<and> a < unat param + 2 * N)
           \<and> (d = stored N param s \<longrightarrow> eeprom s' = eeprom s \<and> (\<forall>a v. Wr a v \<notin> set tr))"
proof -
  define k where "k = active N param s"
  define k' where "k' = next_slot N k"
  have kN: "k < N" unfolding k_def using assms(2) by (rule active_less)
  have k'N: "k' < N" unfolding k'_def using kN by (rule next_slot_less)
  have rr: "\<forall>x\<in>set (resolver_reads N param s). \<exists>c. x = Rd c"
    using assms(2) by (rule resolver_reads_are_reads)
  note w = WriteWearLeveledByte_fits[OF assms, of d, folded k_def, folded k'_def]
  show ?thesis
  proof (cases "dat param s k = d")
    case True
    let ?tr = "resolver_reads N param s @ [Rd (unat param + k)]"
    have "\<forall>a v. Wr a v \<notin> set ?tr" using rr by auto
    with w True show ?thesis
      by (intro exI[of _ "s\<lparr>trace := trace s @ ?tr\<rparr>"] exI[of _ ?tr]) simp
  next
    case False
    let ?tr = "resolver_reads N param s @
                    [Rd (unat param + k), Rd (unat param + k + N), Wr (unat param + k') d,
                     Wr (unat param + k' + N) (gen N param s k + 1)]"
    let ?s' = "s\<lparr>eeprom := (eeprom s)[unat param + k' := d,
                     unat param + k' + N := gen N param s k + 1],
                  trace := trace s @ ?tr\<rparr>"
    have 1: "\<forall>a v. Wr a v \<in> set ?tr \<longrightarrow> unat param \<le> a \<and> a < unat param + 2 * N"
      using rr k'N by auto
    have 2: "\<forall>a. \<not> (unat param \<le> a \<and> a < unat param + 2 * N) \<longrightarrow> eeprom ?s' ! a = eeprom s ! a"
      using k'N by auto
    have 3: "d \<noteq> stored N param s" using False by (auto simp: stored_def k_def)
    from w False 1 2 3 show ?thesis
      by (intro exI[of _ ?s'] exI[of _ ?tr]) simp
  qed
qed

lemma group_code: "param + i * of_nat (N + N) = group N param (unat i)"
  unfolding group_def group_offset_word ..

lemma in_group_disjoint:
  assumes "in_group N param i a" and "in_group N param j a"
  shows "i = j"
proof (rule ccontr)
  assume ne: "i \<noteq> j"
  have aux: "\<And>x y. x < y \<Longrightarrow> in_group N param x a \<Longrightarrow> in_group N param y a \<Longrightarrow> False"
  proof -
    fix x y :: nat assume xy: "x < y" and gx: "in_group N param x a" and gy: "in_group N param y a"
    from xy have "Suc x \<le> y" by simp
    then have "Suc x * (2 * N) \<le> y * (2 * N)" by (rule mult_le_mono1)
    with gx gy show False by (simp add: in_group_def)
  qed
  from ne have "i < j \<or> j < i" by linarith
  with aux assms show False by blast
qed

lemma stored_trace_update [simp]: "stored N param (s\<lparr>trace := t\<rparr>) = stored N param s"
  by (simp add: stored_def active_def)

lemma ReadWearLeveledByte_stored:
  assumes "fits N param s" and "0 < N"
  shows "\<exists>tr. EEPROM_ReadWearLeveledByte N param s = Inr (stored N param s, s\<lparr>trace := trace s @ tr\<rparr>)"
  by (rule exI[of _ "resolver_reads N param s @ [Rd (unat param + active N param s)]"])
     (simp add: ReadWearLeveledByte_fits[OF assms] stored_def)

lemma read_block_loop_result:
  assumes "0 < N" and "block_fits N param len s" and "read_block_loop N param len i buf s = Inr (buf', s')"
  shows "eeprom s' = eeprom s \<and> length buf' = length buf
       \<and> (\<forall>j. unat i \<le> j \<and> j < unat len \<longrightarrow> buf' ! j = stored N (group N param j) s \<and> j < length buf)
       \<and> (\<forall>j<unat i. buf' ! j = buf ! j)"
  using assms
proof (induction N param len i buf s arbitrary: buf' s' rule: read_block_loop.induct)
  case (1 N0 param len i buf s)
  note N0 = "1.prems"(1) and fitsB = "1.prems"(2) and res = "1.prems"(3)
  show ?case
  proof (cases "i < len")
    case False
    then have "unat len \<le> unat i" by (simp add: word_less_nat_alt)
    with res False show ?thesis by (subst (asm) read_block_loop.simps) auto
  next
    case True
    have f: "fits N0 (param + i * of_nat (N0 + N0)) s" using fitsB True N0 by (rule block_group_fits)
    define b where "b = stored N0 (group N0 param (unat i)) s"
    from ReadWearLeveledByte_stored[OF f N0] obtain tr where
      rd: "EEPROM_ReadWearLeveledByte N0 (param + i * of_nat (N0 + N0)) s =
             Inr (b, s\<lparr>trace := trace s @ tr\<rparr>)"
      unfolding b_def group_code by blast
    let ?s1 = "s\<lparr>trace := trace s @ tr\<rparr>"
    from res True rd have ib: "unat i < length buf"
      and rec: "read_block_loop N0 param len (i + 1) (buf[unat i := b]) ?s1 = Inr (buf', s')"
      by (subst (asm) read_block_loop.simps, simp split: if_splits)+
    have fb1: "block_fits N0 param len ?s1" using fitsB by (simp add: block_fits_def)
    have u: "unat (i + 1) = unat i + 1" using unat_succ_less[OF True] by simp
    from "1.IH"[OF True rd refl ib N0 fb1 rec]
    have e: "eeprom s' = eeprom ?s1" and l: "length buf' = length (buf[unat i := b])"
      and hi: "\<forall>j. unat (i + 1) \<le> j \<and> j < unat len \<longrightarrow>
                 buf' ! j = stored N0 (group N0 param j) ?s1 \<and> j < length (buf[unat i := b])"
      and lo: "\<forall>j<unat (i + 1). buf' ! j = (buf[unat i := b]) ! j"
      by simp_all
    have "\<forall>j. unat i \<le> j \<and> j < unat len \<longrightarrow> buf' ! j = stored N0 (group N0 param j) s \<and> j < length buf"
    proof (intro allI impI)
      fix j assume j: "unat i \<le> j \<and> j < unat len"
      show "buf' ! j = stored N0 (group N0 param j) s \<and> j < length buf"
      proof (cases "j = unat i")
        case True
        with lo u ib show ?thesis by (simp add: b_def)
      next
        case False
        with j u have "unat (i + 1) \<le> j \<and> j < unat len" by simp
        with hi show ?thesis by simp
      qed
    qed
    moreover have "\<forall>j<unat i. buf' ! j = buf ! j" using lo u by simp
    ultimately show ?thesis using e l by simp
  qed
qed

lemma write_block_loop_frame:
  assumes N0: "0 < N" and fb: "block_fits N param len s0" and ld: "unat len \<le> length data"
    and i0: "i0 < unat len"
    and same: "\<forall>j<unat len. j \<noteq> i0 \<longrightarrow> data ! j = stored N (group N param j) s0"
  shows "length (eeprom s) = length (eeprom s0) \<Longrightarrow>
         \<forall>a. \<not> in_group N param i0 a \<longrightarrow> eeprom s ! a = eeprom s0 ! a \<Longrightarrow>
         \<exists>s' tr. write_block_loop N param data len i s = Inr s'
            \<and> length (eeprom s') = length (eeprom s0)
            \<and> (\<forall>a. \<not> in_group N param i0 a \<longrightarrow> eeprom s' ! a = eeprom s0 ! a)
            \<and> trace s' = trace s @ tr
            \<and> (\<forall>a v. Wr a v \<in> set tr \<longrightarrow> in_group N param i0 a)"
proof (induction "unat len - unat i" arbitrary: i s)
  case 0
  then have "\<not> i < len" by (simp add: word_less_nat_alt)
  then have "write_block_loop N param data len i s = Inr s"
    by (subst write_block_loop.simps) simp
  with "0.prems" show ?case by (intro exI[of _ s] exI[of _ "[]"]) simp
next
  case (Suc n)
  then have lt: "i < len" by (simp add: word_less_nat_alt)
  define j where "j = unat i"
  have jl: "j < unat len" using lt by (simp add: j_def word_less_nat_alt)
  have jd: "j < length data" using jl ld by simp
  have u: "unat (i + 1) = unat i + 1" using unat_succ_less[OF lt] by simp
  define p where "p = param + i * of_nat (N + N)"
  have pg: "p = group N param j" unfolding p_def j_def by (rule group_code)
  have fbs: "block_fits N param len s" using fb Suc.prems(1) by (simp add: block_fits_def)
  have f: "fits N p s" unfolding p_def using fbs lt N0 by (rule block_group_fits)
  have up: "unat p = unat param + j * (2 * N)"
    unfolding p_def j_def using fb lt N0 by (intro block_group_addr) (simp_all add: block_fits_def)
  have rng: "\<And>a. (unat p \<le> a \<and> a < unat p + 2 * N) = in_group N param j a"
    by (simp add: in_group_def up algebra_simps)
  from write_byte_frame[OF f N0, of "data ! j"] obtain s1 tr1 where
    w: "EEPROM_WriteWearLeveledByte N p (data ! j) s = Inr s1"
    and l1: "length (eeprom s1) = length (eeprom s)"
    and o1: "\<forall>a. \<not> in_group N param j a \<longrightarrow> eeprom s1 ! a = eeprom s ! a"
    and t1: "trace s1 = trace s @ tr1"
    and w1: "\<forall>a v. Wr a v \<in> set tr1 \<longrightarrow> in_group N param j a"
    and e1: "data ! j = stored N p s \<longrightarrow> eeprom s1 = eeprom s \<and> (\<forall>a v. Wr a v \<notin> set tr1)"
    unfolding rng by blast
  have inv1: "(\<forall>a. \<not> in_group N param i0 a \<longrightarrow> eeprom s1 ! a = eeprom s0 ! a)
            \<and> (\<forall>a v. Wr a v \<in> set tr1 \<longrightarrow> in_group N param i0 a)"
  proof (cases "j = i0")
    case True
    with o1 w1 Suc.prems(2) show ?thesis by simp
  next
    case False
    have "\<forall>a. unat p \<le> a \<and> a < unat p + 2 * N \<longrightarrow> eeprom s ! a = eeprom s0 ! a"
      unfolding rng using Suc.prems(2) False in_group_disjoint by blast
    from stored_local[OF N0 this] have "stored N p s = stored N p s0" .
    with same jl False have "data ! j = stored N p s" by (simp add: pg)
    with e1 have "eeprom s1 = eeprom s" and "\<forall>a v. Wr a v \<notin> set tr1" by simp_all
    with Suc.prems(2) show ?thesis by simp
  qed
  have step: "write_block_loop N param data len i s = write_block_loop N param data len (i + 1) s1"
    using lt jd w by (subst write_block_loop.simps) (simp add: j_def p_def)
  have "n = unat len - unat (i + 1)" using Suc.hyps(2) u by simp
  from Suc.hyps(1)[OF this, of s1] l1 Suc.prems(1) inv1
  obtain s' tr2 where
    r: "write_block_loop N param data len (i + 1) s1 = Inr s'"
    and l2: "length (eeprom s') = length (eeprom s0)"
    and o2: "\<forall>a. \<not> in_group N param i0 a \<longrightarrow> eeprom s' ! a = eeprom s0 ! a"
    and t2: "trace s' = trace s1 @ tr2"
    and w2: "\<forall>a v. Wr a v \<in> set tr2 \<longrightarrow> in_group N param i0 a"
    by auto
  have "trace s' = trace s @ (tr1 @ tr2)" using t1 t2 by simp
  moreover have "\<forall>a v. Wr a v \<in> set (tr1 @ tr2) \<longrightarrow> in_group N param i0 a"
    using inv1 w2 by auto
  ultimately show ?case using step r l2 o2
    by (intro exI[of _ s'] exI[of _ "tr1 @ tr2"]) simp
qed

text \<open>
  Claim C6. For a block of \<open>len\<close> bytes at \<open>param\<close> that fits the medium (\<open>N \<ge> 1\<close>), let
  \<open>old\<close> be the stored block, as \<open>EEPROM_ReadWearLeveledBlock\<close> returns it, and \<open>data\<close> a
  buffer of \<open>len\<close> bytes that agrees with \<open>old\<close> everywhere but possibly at byte \<open>i\<close>. Then
  byte \<open>j\<close> of the stored block is what \<open>EEPROM_ReadWearLeveledByte\<close> returns for the group
  at offset \<open>param + j * 2N\<close>; \<open>EEPROM_WriteWearLeveledBlock\<close> returns; every cell outside
  the \<open>2N\<close> cells \<open>[param + i * 2N, param + (i + 1) * 2N)\<close> of byte \<open>i\<close> is unchanged; and every
  write the call performs is to a cell of that group.
\<close>

theorem block_independence:
  assumes "0 < N" and "block_fits N param len s" and "length data = unat len"
    and "EEPROM_ReadWearLeveledBlock N param buf len s = Inr (old, s0)"
    and "i < unat len" and "\<forall>j<unat len. j \<noteq> i \<longrightarrow> data ! j = old ! j"
  shows "(\<forall>j<unat len. \<exists>r. EEPROM_ReadWearLeveledByte N (param + of_nat (j * (2 * N))) s = Inr (old ! j, r))
       \<and> (\<exists>s' tr. EEPROM_WriteWearLeveledBlock N param data len s = Inr s'
            \<and> length (eeprom s') = length (eeprom s)
            \<and> (\<forall>a. \<not> (unat param + i * (2 * N) \<le> a \<and> a < unat param + (i + 1) * (2 * N))
                   \<longrightarrow> eeprom s' ! a = eeprom s ! a)
            \<and> trace s' = trace s @ tr
            \<and> (\<forall>a v. Wr a v \<in> set tr \<longrightarrow>
                   unat param + i * (2 * N) \<le> a \<and> a < unat param + (i + 1) * (2 * N)))"
proof -
  from assms(4) have rb: "read_block_loop N param len 0 buf s = Inr (old, s0)"
    by (simp add: EEPROM_ReadWearLeveledBlock_def)
  from read_block_loop_result[OF assms(1,2) rb]
  have old: "\<forall>j<unat len. old ! j = stored N (group N param j) s" by simp
  have 1: "\<forall>j<unat len. \<exists>r. EEPROM_ReadWearLeveledByte N (param + of_nat (j * (2 * N))) s = Inr (old ! j, r)"
  proof (intro allI impI)
    fix j assume j: "j < unat len"
    have ji: "unat (of_nat j :: addr) = j"
      using j unsigned_less[of len, where 'a=nat] by (intro unat_of_nat_addr) simp
    then have lt: "(of_nat j :: addr) < len" using j by (simp add: word_less_nat_alt)
    have "fits N (param + of_nat j * of_nat (N + N)) s"
      using assms(2) lt assms(1) by (rule block_group_fits)
    then have f: "fits N (group N param j) s" unfolding group_code ji .
    from ReadWearLeveledByte_stored[OF f assms(1)] old j
    show "\<exists>r. EEPROM_ReadWearLeveledByte N (param + of_nat (j * (2 * N))) s = Inr (old ! j, r)"
      unfolding group_def by auto
  qed
  have same: "\<forall>j<unat len. j \<noteq> i \<longrightarrow> data ! j = stored N (group N param j) s"
    using assms(6) old by simp
  have ld: "unat len \<le> length data" using assms(3) by simp
  from write_block_loop_frame[OF assms(1,2) ld assms(5) same, of s 0]
  have 2: "\<exists>s' tr. EEPROM_WriteWearLeveledBlock N param data len s = Inr s'
            \<and> length (eeprom s') = length (eeprom s)
            \<and> (\<forall>a. \<not> in_group N param i a \<longrightarrow> eeprom s' ! a = eeprom s ! a)
            \<and> trace s' = trace s @ tr
            \<and> (\<forall>a v. Wr a v \<in> set tr \<longrightarrow> in_group N param i a)"
    by (simp add: EEPROM_WriteWearLeveledBlock_def)
  from 1 2 show ?thesis unfolding in_group_def by blast
qed

theorem block_independence_witness:
  "EEPROM_InitWearLeveledBlock 2 0 [0xFD, 0x00] 2 (eeprom_initial 8) =
     Some (Inr \<lparr>eeprom = [0xFD, 0xFF, 1, 0, 0x00, 0xFF, 1, 0],
                trace = [Wr 2 1, Wr 3 0, Wr 0 0xFD, Wr 6 1, Wr 7 0, Wr 4 0]\<rparr>) \<and>
   block_fits 2 0 2 \<lparr>eeprom = [0xFD, 0xFF, 1, 0, 0x00, 0xFF, 1, 0],
                trace = [Wr 2 1, Wr 3 0, Wr 0 0xFD, Wr 6 1, Wr 7 0, Wr 4 0]\<rparr> \<and>
   EEPROM_ReadWearLeveledBlock 2 0 [0, 0] 2
       \<lparr>eeprom = [0xFD, 0xFF, 1, 0, 0x00, 0xFF, 1, 0],
        trace = [Wr 2 1, Wr 3 0, Wr 0 0xFD, Wr 6 1, Wr 7 0, Wr 4 0]\<rparr> =
     Inr ([0xFD, 0x00],
          \<lparr>eeprom = [0xFD, 0xFF, 1, 0, 0x00, 0xFF, 1, 0],
           trace = [Wr 2 1, Wr 3 0, Wr 0 0xFD, Wr 6 1, Wr 7 0, Wr 4 0,
                    Rd 2, Rd 3, Rd 0, Rd 6, Rd 7, Rd 4]\<rparr>) \<and>
   (\<exists>s'. EEPROM_WriteWearLeveledBlock 2 0 [0xFE, 0x00] 2
            \<lparr>eeprom = [0xFD, 0xFF, 1, 0, 0x00, 0xFF, 1, 0],
             trace = [Wr 2 1, Wr 3 0, Wr 0 0xFD, Wr 6 1, Wr 7 0, Wr 4 0]\<rparr> = Inr s'
        \<and> eeprom s' ! 4 = 0x00 \<and> eeprom s' ! 5 = 0xFF \<and> eeprom s' ! 6 = 1 \<and> eeprom s' ! 7 = 0)"
proof -
  let ?S = "\<lparr>eeprom = [0xFD, 0xFF, 1, 0, 0x00, 0xFF, 1, 0 :: byte],
             trace = [Wr 2 1, Wr 3 0, Wr 0 0xFD, Wr 6 1, Wr 7 0, Wr 4 0]\<rparr>"
  let ?R = "\<lparr>eeprom = [0xFD, 0xFF, 1, 0, 0x00, 0xFF, 1, 0 :: byte],
             trace = [Wr 2 1, Wr 3 0, Wr 0 0xFD, Wr 6 1, Wr 7 0, Wr 4 0,
                      Rd 2, Rd 3, Rd 0, Rd 6, Rd 7, Rd 4]\<rparr>"
  have i: "EEPROM_InitWearLeveledBlock 2 0 [0xFD, 0x00] 2 (eeprom_initial 8) = Some (Inr ?S)"
    by code_simp
  have n: "(0::nat) < 2" by simp
  have f: "block_fits 2 0 2 ?S" by (simp add: block_fits_def)
  have l: "length [0xFE, 0x00 :: byte] = unat (2::addr)" by simp
  have r: "EEPROM_ReadWearLeveledBlock 2 0 [0, 0] 2 ?S = Inr ([0xFD, 0x00], ?R)"
    by code_simp
  have k: "0 < unat (2::addr)" by simp
  have d: "\<forall>j<unat (2::addr). j \<noteq> 0 \<longrightarrow> [0xFE, 0x00 :: byte] ! j = [0xFD, 0x00] ! j"
    by (simp add: less_Suc_eq numeral_2_eq_2)
  from block_independence[OF n f l r k d, THEN conjunct2] obtain s' tr where
    w: "EEPROM_WriteWearLeveledBlock 2 0 [0xFE, 0x00] 2 ?S = Inr s'"
    and o: "\<forall>a. \<not> (unat (0::addr) + 0 * (2 * 2) \<le> a \<and> a < unat (0::addr) + (0 + 1) * (2 * 2))
                   \<longrightarrow> eeprom s' ! a = eeprom ?S ! a"
    by blast
  from o[rule_format, of 4] o[rule_format, of 5] o[rule_format, of 6] o[rule_format, of 7]
  have "eeprom s' ! 4 = 0x00 \<and> eeprom s' ! 5 = 0xFF \<and> eeprom s' ! 6 = 1 \<and> eeprom s' ! 7 = 0"
    by simp
  with w have "\<exists>s'. EEPROM_WriteWearLeveledBlock 2 0 [0xFE, 0x00] 2 ?S = Inr s'
        \<and> eeprom s' ! 4 = 0x00 \<and> eeprom s' ! 5 = 0xFF \<and> eeprom s' ! 6 = 1 \<and> eeprom s' ! 7 = 0"
    by blast
  with i f r show ?thesis by blast
qed

end
